theory Spec2Isabelle
  imports Complex_Main "HOL-Library.Word" "HOL-Library.Multiset" "HOL-Library.Log_Nat"
begin

unbundle bit_operations_syntax

section \<open>Data model of passwdm (src/cli.js)\<close>

text \<open>
  A JavaScript string is a sequence of UTF-16 code units, a Buffer a sequence of bytes.
  String literals of the source are written with \<open>js\<close>.
\<close>

type_synonym jsstring = "16 word list"
type_synonym bytes = "8 word list"

definition js :: "string \<Rightarrow> jsstring" where
  "js s = map (\<lambda>c. of_nat (of_char c)) s"

text \<open>
  An entry of \<^verbatim>\<open>store.json\<close>. The field \<^verbatim>\<open>id\<close> is called \<open>entry_id\<close> here
  (\<open>id\<close> is the identity function of HOL). An entry written by the program has no
  \<^verbatim>\<open>deprecatedAt\<close> property until \<^verbatim>\<open>deprecateEntry\<close> sets it: \<open>None\<close> is the
  absent property.
\<close>

record entry =
  entry_id :: jsstring
  name :: jsstring
  secret :: jsstring
  createdAt :: jsstring
  deprecated :: bool
  deprecatedAt :: "jsstring option"

text \<open>What the flows print with \<^verbatim>\<open>console.log\<close>, without the colours.\<close>

datatype message =
    NoActive
  | NoDeprecated
  | NoToDelete
  | DecryptionFailed
  | NewPasswordFor jsstring jsstring
  | Replaced jsstring
  | PasswordFor jsstring jsstring
  | NewPassword jsstring
  | DeprecatedFor jsstring jsstring
  | Deleted int jsstring

text \<open>
  The world outside the program: the store file (\<open>None\<close> when it does not exist, else
  the parsed \<^verbatim>\<open>entries\<close> array), the number of times the file has been written, the
  console, and the values the next calls of \<^verbatim>\<open>Math.random()\<close>,
  \<^verbatim>\<open>crypto.randomBytes(IV_LEN)\<close>, \<^verbatim>\<open>crypto.randomUUID()\<close> and
  \<^verbatim>\<open>new Date().toISOString()\<close> will return, in order. A \<^verbatim>\<open>Number\<close> returned by
  \<^verbatim>\<open>Math.random()\<close> is read as the real number it denotes, and the \<open>IV_LEN = 12\<close>
  bytes returned by \<^verbatim>\<open>crypto.randomBytes\<close> as a 96-bit value.
\<close>

record world =
  store_file :: "entry list option"
  store_writes :: nat
  console :: "message list"
  mathRandom :: "nat \<Rightarrow> real"
  randomBytes :: "nat \<Rightarrow> 96 word"
  randomUUID :: "nat \<Rightarrow> jsstring"
  clock :: "nat \<Rightarrow> jsstring"

definition rest :: "(nat \<Rightarrow> 'a) \<Rightarrow> (nat \<Rightarrow> 'a)" where
  "rest src = (\<lambda>n. src (Suc n))"

definition console_log :: "message \<Rightarrow> world \<Rightarrow> world" where
  "console_log m w = w\<lparr>console := console w @ [m]\<rparr>"

section \<open>Store I/O\<close>

text \<open>
  \<^verbatim>\<open>loadStore\<close> creates the file with no entries when it does not exist, then reads it;
  \<^verbatim>\<open>saveStore\<close> overwrites it.
\<close>

definition loadStore :: "world \<Rightarrow> entry list \<times> world" where
  "loadStore w =
     (case store_file w of
        None \<Rightarrow> ([], w\<lparr>store_file := Some [], store_writes := Suc (store_writes w)\<rparr>)
      | Some es \<Rightarrow> (es, w))"

definition saveStore :: "entry list \<Rightarrow> world \<Rightarrow> world" where
  "saveStore es w = w\<lparr>store_file := Some es, store_writes := Suc (store_writes w)\<rparr>"

section \<open>Delete flow\<close>

text \<open>
  \<^verbatim>\<open>[...new Set(xs)]\<close> keeps the first occurrence of every element, in order.
\<close>

definition set_add :: "'a list \<Rightarrow> 'a \<Rightarrow> 'a list" where
  "set_add acc x = (if x \<in> set acc then acc else acc @ [x])"

definition new_Set :: "'a list \<Rightarrow> 'a list" where
  "new_Set xs = foldl set_add [] xs"

text \<open>
  \<^verbatim>\<open>deleteFlow\<close>; \<open>sel\<close> is the answer to the prompt "Select site to delete" and
  \<open>confirm\<close> the answer to "Delete ALL for ...?". Neither prompt is reached when the
  store has no entry.
\<close>

definition deleteFlow :: "jsstring \<Rightarrow> bool \<Rightarrow> world \<Rightarrow> world" where
  "deleteFlow sel confirm w =
     (let (entries, w1) = loadStore w;
          names = new_Set (map name entries)
      in if names = [] then console_log NoToDelete w1
         else if \<not> confirm then w1
         else
           let before = length entries;
               entries' = filter (\<lambda>e. name e \<noteq> sel) entries;
               w2 = saveStore entries' w1
           in console_log (Deleted (int before - int (length entries')) sel) w2)"

section \<open>Password generator and deprecation\<close>

definition LOWER :: jsstring where "LOWER = js ''abcdefghijklmnopqrstuvwxyz''"
definition UPPER :: jsstring where "UPPER = js ''ABCDEFGHIJKLMNOPQRSTUVWXYZ''"
definition DIGITS :: jsstring where "DIGITS = js ''0123456789''"
definition SPECIAL :: jsstring where "SPECIAL = js ''!@#$^&*~''"

definition all_chars :: jsstring where
  "all_chars = LOWER @ UPPER @ DIGITS @ SPECIAL"

text \<open>
  A \<^verbatim>\<open>Number\<close> is an IEEE 754 binary64 value, read as the real number it denotes.
  The product \<^verbatim>\<open>a * b\<close> of two Numbers is the exact product rounded to the nearest
  binary64 value, a tie going to the value with an even significand. \<open>binade x\<close> is
  the exponent \<open>e\<close> with \<open>2 ^ e \<le> x < 2 ^ (e + 1)\<close>, not below the exponent \<open>-1022\<close> of
  the subnormal values: from 1 on it is the number of binary digits of the integer part
  less one, and below 1 \<open>scale_up\<close> counts the doublings that bring the value to 1, at
  most 1022 of them. \<open>ulp x\<close> is the distance of two neighbouring binary64 values
  there (53 bits of significand), and \<open>to_double\<close> rounds to a multiple of it. The
  values of this program are far below \<open>2 ^ 1024\<close>, where rounding does not overflow.
\<close>

definition round_half_even :: "real \<Rightarrow> int" where
  "round_half_even y =
     (let q = \<lfloor>y\<rfloor>; f = y - of_int q
      in if f < 1 / 2 then q else if 1 / 2 < f then q + 1 else if even q then q else q + 1)"

definition pow2 :: "int \<Rightarrow> real" where
  "pow2 e = (if 0 \<le> e then 2 ^ nat e else 1 / 2 ^ nat (- e))"

fun scale_up :: "nat \<Rightarrow> real \<Rightarrow> int" where
  "scale_up 0 x = 0"
| "scale_up (Suc k) x = (if 1 \<le> x then 0 else scale_up k (2 * x) - 1)"

definition binade :: "real \<Rightarrow> int" where
  "binade x = (if 1 \<le> x then int (floorlog 2 (nat \<lfloor>x\<rfloor>)) - 1 else scale_up 1022 x)"

definition ulp :: "real \<Rightarrow> real" where
  "ulp x = pow2 (binade \<bar>x\<bar> - 52)"

definition to_double :: "real \<Rightarrow> real" where
  "to_double x = (if x = 0 then 0 else of_int (round_half_even (x / ulp x)) * ulp x)"

definition is_double :: "real \<Rightarrow> bool" where
  "is_double x = (to_double x = x)"

definition times_double :: "real \<Rightarrow> real \<Rightarrow> real" where
  "times_double a b = to_double (a * b)"

text \<open>
  \<^verbatim>\<open>pick = s => s[Math.floor(Math.random() * s.length)]\<close>, with \<open>r\<close> the value
  \<^verbatim>\<open>Math.random()\<close> returns. The length of a string is an integer Number, and the
  product is the rounded one. ECMAScript promises that \<^verbatim>\<open>Math.random()\<close> returns a
  Number \<open>r\<close> with \<open>0 \<le> r < 1\<close>; the properties below state that promise as
  \<open>unit_draws\<close>.
\<close>

definition Math_floor_times :: "real \<Rightarrow> nat \<Rightarrow> nat" where
  "Math_floor_times r n = nat \<lfloor>times_double r (real n)\<rfloor>"

definition pick :: "jsstring \<Rightarrow> real \<Rightarrow> 16 word" where
  "pick s r = s ! Math_floor_times r (length s)"

definition unit_draws :: "(nat \<Rightarrow> real) \<Rightarrow> bool" where
  "unit_draws src = (\<forall>n. is_double (src n) \<and> 0 \<le> src n \<and> src n < 1)"

text \<open>\<^verbatim>\<open>while (pw.length < length) pw.push(pick(all))\<close>\<close>

function fill :: "int \<Rightarrow> jsstring \<Rightarrow> (nat \<Rightarrow> real) \<Rightarrow> jsstring \<times> (nat \<Rightarrow> real)" where
  "fill len pw src =
     (if int (length pw) < len then fill len (pw @ [pick all_chars (src 0)]) (rest src)
      else (pw, src))"
  by pat_completeness auto
termination
  by (relation "measure (\<lambda>(len, pw, src). nat (len - int (length pw)))") auto

text \<open>
  The shuffle \<^verbatim>\<open>for (let i = pw.length - 1; i > 0; i--)\<close>, with
  \<^verbatim>\<open>j = Math.floor(Math.random() * (i + 1))\<close> and the swap of \<^verbatim>\<open>pw[i]\<close> and
  \<^verbatim>\<open>pw[j]\<close>. The first argument is the loop variable.
\<close>

fun shuffle :: "nat \<Rightarrow> jsstring \<Rightarrow> (nat \<Rightarrow> real) \<Rightarrow> jsstring \<times> (nat \<Rightarrow> real)" where
  "shuffle 0 pw src = (pw, src)"
| "shuffle (Suc i) pw src =
     (let j = Math_floor_times (src 0) (Suc i + 1)
      in shuffle i (pw[Suc i := pw ! j, j := pw ! Suc i]) (rest src))"

text \<open>
  \<^verbatim>\<open>generatePassword(length)\<close> for an integer \<open>length\<close>; it takes the values of
  \<^verbatim>\<open>Math.random()\<close> and returns the password with the values it has not used.
\<close>

definition generatePassword :: "int \<Rightarrow> (nat \<Rightarrow> real) \<Rightarrow> jsstring \<times> (nat \<Rightarrow> real)" where
  "generatePassword len0 src =
     (let len = (if len0 < 8 then 8 else len0);
          pw = [pick LOWER (src 0), pick UPPER (src 1), pick DIGITS (src 2),
                pick SPECIAL (src 3)];
          (pw1, src1) = fill len pw (rest (rest (rest (rest src))));
          (pw2, src2) = shuffle (length pw1 - 1) pw1 src1
      in (pw2, src2))"

text \<open>\<^verbatim>\<open>deprecateEntry(e)\<close>, with \<open>now\<close> the value of \<^verbatim>\<open>new Date().toISOString()\<close>.\<close>

definition deprecateEntry :: "entry \<Rightarrow> jsstring \<Rightarrow> entry" where
  "deprecateEntry e now = e\<lparr>deprecated := True, deprecatedAt := Some now\<rparr>"


section \<open>Encodings used by the crypto utilities\<close>

subsection \<open>UTF-8\<close>

text \<open>
  \<^verbatim>\<open>cipher.update(plain, 'utf8')\<close> encodes the string as UTF-8 and
  \<^verbatim>\<open>buf.toString('utf8')\<close> decodes it. A surrogate pair is one code point; a surrogate
  without its partner is encoded as U+FFFD. The decoder emits U+FFFD for every byte
  sequence that is not the encoding of a code point, and goes on with the byte that
  broke the sequence.
\<close>

definition is_lead_surrogate :: "16 word \<Rightarrow> bool" where
  "is_lead_surrogate u = (0xD800 \<le> unat u \<and> unat u \<le> 0xDBFF)"

definition is_trail_surrogate :: "16 word \<Rightarrow> bool" where
  "is_trail_surrogate u = (0xDC00 \<le> unat u \<and> unat u \<le> 0xDFFF)"

definition utf8_of_code_point :: "nat \<Rightarrow> bytes" where
  "utf8_of_code_point cp =
     (if cp < 0x80 then [of_nat cp]
      else if cp < 0x800 then [of_nat (0xC0 + cp div 64), of_nat (0x80 + cp mod 64)]
      else if cp < 0x10000 then
        [of_nat (0xE0 + cp div 4096), of_nat (0x80 + cp div 64 mod 64),
         of_nat (0x80 + cp mod 64)]
      else
        [of_nat (0xF0 + cp div 262144), of_nat (0x80 + cp div 4096 mod 64),
         of_nat (0x80 + cp div 64 mod 64), of_nat (0x80 + cp mod 64)])"

fun Buffer_from_utf8 :: "jsstring \<Rightarrow> bytes" where
  "Buffer_from_utf8 [] = []"
| "Buffer_from_utf8 (u # us) =
     (if is_lead_surrogate u then
        (case us of
           [] \<Rightarrow> utf8_of_code_point 0xFFFD
         | t # us' \<Rightarrow>
             if is_trail_surrogate t
             then utf8_of_code_point (0x10000 + (unat u - 0xD800) * 1024 + (unat t - 0xDC00))
                    @ Buffer_from_utf8 us'
             else utf8_of_code_point 0xFFFD @ Buffer_from_utf8 us)
      else if is_trail_surrogate u then utf8_of_code_point 0xFFFD @ Buffer_from_utf8 us
      else utf8_of_code_point (unat u) @ Buffer_from_utf8 us)"

definition code_units :: "nat \<Rightarrow> jsstring" where
  "code_units cp =
     (if cp < 0x10000 then [of_nat cp]
      else [of_nat (0xD800 + (cp - 0x10000) div 1024),
            of_nat (0xDC00 + (cp - 0x10000) mod 1024)])"

definition between :: "nat \<Rightarrow> nat \<Rightarrow> 8 word \<Rightarrow> bool" where
  "between lo hi b = (lo \<le> unat b \<and> unat b \<le> hi)"

definition bits6 :: "8 word \<Rightarrow> nat" where
  "bits6 b = unat b mod 64"

fun toString_utf8 :: "bytes \<Rightarrow> jsstring" where
  "toString_utf8 [] = []"
| "toString_utf8 (b # bs) =
     (if unat b < 0x80 then of_nat (unat b) # toString_utf8 bs
      else if between 0xC2 0xDF b then
        (case bs of
           [] \<Rightarrow> [0xFFFD]
         | c1 # bs1 \<Rightarrow>
             if between 0x80 0xBF c1
             then code_units (unat b mod 32 * 64 + bits6 c1) @ toString_utf8 bs1
             else 0xFFFD # toString_utf8 bs)
      else if between 0xE0 0xEF b then
        (case bs of
           [] \<Rightarrow> [0xFFFD]
         | c1 # bs1 \<Rightarrow>
             if between (if unat b = 0xE0 then 0xA0 else 0x80)
                        (if unat b = 0xED then 0x9F else 0xBF) c1
             then (case bs1 of
                     [] \<Rightarrow> [0xFFFD]
                   | c2 # bs2 \<Rightarrow>
                       if between 0x80 0xBF c2
                       then code_units (unat b mod 16 * 4096 + bits6 c1 * 64 + bits6 c2)
                              @ toString_utf8 bs2
                       else 0xFFFD # toString_utf8 bs1)
             else 0xFFFD # toString_utf8 bs)
      else if between 0xF0 0xF4 b then
        (case bs of
           [] \<Rightarrow> [0xFFFD]
         | c1 # bs1 \<Rightarrow>
             if between (if unat b = 0xF0 then 0x90 else 0x80)
                        (if unat b = 0xF4 then 0x8F else 0xBF) c1
             then (case bs1 of
                     [] \<Rightarrow> [0xFFFD]
                   | c2 # bs2 \<Rightarrow>
                       if between 0x80 0xBF c2
                       then (case bs2 of
                               [] \<Rightarrow> [0xFFFD]
                             | c3 # bs3 \<Rightarrow>
                                 if between 0x80 0xBF c3
                                 then code_units (unat b mod 8 * 262144 + bits6 c1 * 4096
                                                  + bits6 c2 * 64 + bits6 c3)
                                        @ toString_utf8 bs3
                                 else 0xFFFD # toString_utf8 bs2)
                       else 0xFFFD # toString_utf8 bs1)
             else 0xFFFD # toString_utf8 bs)
      else 0xFFFD # toString_utf8 bs)"

text \<open>A string is well formed when every surrogate is half of a pair.\<close>

fun well_formed :: "jsstring \<Rightarrow> bool" where
  "well_formed [] = True"
| "well_formed (u # us) =
     (if is_lead_surrogate u then
        (case us of [] \<Rightarrow> False | t # us' \<Rightarrow> is_trail_surrogate t \<and> well_formed us')
      else \<not> is_trail_surrogate u \<and> well_formed us)"

subsection \<open>Hexadecimal\<close>

text \<open>
  \<^verbatim>\<open>buf.toString('hex')\<close> writes two lower-case digits for a byte.
  \<^verbatim>\<open>Buffer.from(s, 'hex')\<close> reads pairs of digits of either case and stops at the first
  pair that is not two digits, or at a last single character. Node's decoder reads the
  low byte of each code unit of the string, so a code unit from \<open>0x100\<close> on counts as
  the digit its low byte is, if it is one.
\<close>

definition hex_digit :: "nat \<Rightarrow> 16 word" where
  "hex_digit n = (if n < 10 then of_nat (48 + n) else of_nat (87 + n))"

definition toString_hex :: "bytes \<Rightarrow> jsstring" where
  "toString_hex bs = concat (map (\<lambda>b. [hex_digit (unat b div 16), hex_digit (unat b mod 16)]) bs)"

definition unhex :: "16 word \<Rightarrow> nat option" where
  "unhex c =
     (let n = unat c mod 256
      in if 48 \<le> n \<and> n \<le> 57 then Some (n - 48)
         else if 97 \<le> n \<and> n \<le> 102 then Some (n - 87)
         else if 65 \<le> n \<and> n \<le> 70 then Some (n - 55)
         else None)"

fun Buffer_from_hex :: "jsstring \<Rightarrow> bytes" where
  "Buffer_from_hex (a # b # cs) =
     (case (unhex a, unhex b) of
        (Some x, Some y) \<Rightarrow> of_nat (x * 16 + y) # Buffer_from_hex cs
      | _ \<Rightarrow> [])"
| "Buffer_from_hex _ = []"

subsection \<open>The payload \<^verbatim>\<open>iv:ct:tag\<close>\<close>

definition colon :: "16 word" where
  "colon = 58"

text \<open>\<^verbatim>\<open>parts.join(':')\<close> and \<^verbatim>\<open>payload.split(':')\<close>.\<close>

fun join_colon :: "jsstring list \<Rightarrow> jsstring" where
  "join_colon [] = []"
| "join_colon [x] = x"
| "join_colon (x # y # zs) = x @ colon # join_colon (y # zs)"

fun split_from :: "jsstring \<Rightarrow> jsstring \<Rightarrow> jsstring list" where
  "split_from cur [] = [rev cur]"
| "split_from cur (c # cs) =
     (if c = colon then rev cur # split_from [] cs else split_from (c # cur) cs)"

definition split_colon :: "jsstring \<Rightarrow> jsstring list" where
  "split_colon s = split_from [] s"

section \<open>Encrypt/decrypt utilities\<close>

text \<open>
  AES-256 in GCM mode comes from Node's \<^verbatim>\<open>crypto\<close> module, not from this repository.
  What the utilities use of it is its shape: the mode encrypts and decrypts by XOR with
  a key stream that depends on the key and the nonce, and authenticates with a 16-byte
  tag computed from the key, the nonce and the ciphertext. The key stream and the tag
  function are the two fields of \<open>aes_256_gcm\<close>; every property below holds for all
  values of them. The key is a 256-bit value: \<^verbatim>\<open>initEncryptionKey\<close> exits the process
  unless the configured key has 32 bytes.
\<close>

record aes_256_gcm =
  keystream :: "256 word \<Rightarrow> bytes \<Rightarrow> nat \<Rightarrow> 8 word"
  auth_tag :: "256 word \<Rightarrow> bytes \<Rightarrow> bytes \<Rightarrow> 128 word"

text \<open>The \<open>n\<close> low bytes of a value, most significant first.\<close>

fun be_bytes :: "nat \<Rightarrow> 'a::len word \<Rightarrow> bytes" where
  "be_bytes 0 w = []"
| "be_bytes (Suc n) w = ucast (drop_bit (8 * n) w) # be_bytes n w"

definition IV_LEN :: nat where
  "IV_LEN = 12"

text \<open>\<^verbatim>\<open>cipher.update(data)\<close> and \<^verbatim>\<open>dec.update(data)\<close>: the same XOR.\<close>

definition gcm_update :: "aes_256_gcm \<Rightarrow> 256 word \<Rightarrow> bytes \<Rightarrow> bytes \<Rightarrow> bytes" where
  "gcm_update G key iv data =
     map (\<lambda>(b, i). b XOR keystream G key iv i) (zip data [0..<length data])"

text \<open>\<^verbatim>\<open>cipher.getAuthTag()\<close>\<close>

definition getAuthTag :: "aes_256_gcm \<Rightarrow> 256 word \<Rightarrow> bytes \<Rightarrow> bytes \<Rightarrow> bytes" where
  "getAuthTag G key iv ct = be_bytes 16 (auth_tag G key iv ct)"

text \<open>
  The exceptions \<^verbatim>\<open>decryptText\<close> can throw: a \<^verbatim>\<open>TypeError\<close> (from
  \<^verbatim>\<open>Buffer.from(undefined, 'hex')\<close>, or from reading a property of \<^verbatim>\<open>undefined\<close>),
  "Invalid initialization vector" from \<^verbatim>\<open>createDecipheriv\<close> for an empty nonce,
  "Invalid authentication tag length" from \<^verbatim>\<open>setAuthTag\<close>, and "Unsupported state or
  unable to authenticate data" from \<^verbatim>\<open>dec.final()\<close>.
\<close>

datatype js_error = TypeError | InvalidIV | InvalidAuthTagLength | UnableToAuthenticate

text \<open>The tag lengths \<^verbatim>\<open>setAuthTag\<close> accepts in GCM mode.\<close>

definition valid_tag_length :: "nat \<Rightarrow> bool" where
  "valid_tag_length n = (n = 4 \<or> n = 8 \<or> (12 \<le> n \<and> n \<le> 16))"

text \<open>
  \<^verbatim>\<open>dec.final()\<close> compares the tag given to \<^verbatim>\<open>setAuthTag\<close> with as many bytes of the
  tag it computes, and throws when they differ; in GCM mode it returns no bytes.
\<close>

definition dec_final :: "aes_256_gcm \<Rightarrow> 256 word \<Rightarrow> bytes \<Rightarrow> bytes \<Rightarrow> bytes \<Rightarrow> js_error + bytes" where
  "dec_final G key iv ct tag =
     (if tag = take (length tag) (getAuthTag G key iv ct) then Inr []
      else Inl UnableToAuthenticate)"

text \<open>
  \<^verbatim>\<open>encryptText(plain)\<close>; \<open>masterKey\<close> is the module variable of that name, and the nonce
  is the next value of \<^verbatim>\<open>crypto.randomBytes(IV_LEN)\<close>. \<open>encrypt_with\<close> is the body of the
  function after the nonce has been drawn.
\<close>

definition encrypt_with :: "aes_256_gcm \<Rightarrow> 256 word \<Rightarrow> bytes \<Rightarrow> jsstring \<Rightarrow> jsstring" where
  "encrypt_with G masterKey iv plain =
     (let ct = gcm_update G masterKey iv (Buffer_from_utf8 plain) @ [];
          tag = getAuthTag G masterKey iv ct
      in join_colon (map toString_hex [iv, ct, tag]))"

definition encryptText :: "aes_256_gcm \<Rightarrow> 256 word \<Rightarrow> jsstring \<Rightarrow> world \<Rightarrow> jsstring \<times> world" where
  "encryptText G masterKey plain w =
     (let iv = be_bytes IV_LEN (randomBytes w 0);
          w' = w\<lparr>randomBytes := rest (randomBytes w)\<rparr>
      in (encrypt_with G masterKey iv plain, w'))"

text \<open>
  \<^verbatim>\<open>decryptText(payload)\<close>. The destructuring takes the first three components of the
  split; with fewer than three, \<^verbatim>\<open>Buffer.from\<close> is called on \<^verbatim>\<open>undefined\<close> and throws.
  In \<^verbatim>\<open>Buffer.concat([dec.update(ct), dec.final()])\<close> the decrypted bytes exist before
  \<^verbatim>\<open>dec.final()\<close> runs, and are dropped when it throws.
\<close>

definition decryptText :: "aes_256_gcm \<Rightarrow> 256 word \<Rightarrow> jsstring \<Rightarrow> js_error + jsstring" where
  "decryptText G masterKey payload =
     (case split_colon payload of
        ivHex # ctHex # tagHex # _ \<Rightarrow>
          (let iv = Buffer_from_hex ivHex;
               ct = Buffer_from_hex ctHex;
               tag = Buffer_from_hex tagHex
           in if iv = [] then Inl InvalidIV
              else if \<not> valid_tag_length (length tag) then Inl InvalidAuthTagLength
              else
                let updated = gcm_update G masterKey iv ct
                in case dec_final G masterKey iv ct tag of
                     Inl err \<Rightarrow> Inl err
                   | Inr final \<Rightarrow> Inr (toString_utf8 (updated @ final)))
      | _ \<Rightarrow> Inl TypeError)"

section \<open>CLI flows\<close>

text \<open>\<^verbatim>\<open>s.trim()\<close> removes white space and line terminators at both ends.\<close>

definition is_white_space :: "16 word \<Rightarrow> bool" where
  "is_white_space c =
     (c \<in> {0x09, 0x0A, 0x0B, 0x0C, 0x0D, 0x20, 0xA0, 0x1680, 0x2028, 0x2029, 0x202F,
            0x205F, 0x3000, 0xFEFF}
      \<or> (0x2000 \<le> unat c \<and> unat c \<le> 0x200A))"

definition trim :: "jsstring \<Rightarrow> jsstring" where
  "trim s = rev (dropWhile is_white_space (rev (dropWhile is_white_space s)))"

text \<open>\<^verbatim>\<open>generatePassword(n)\<close> on the world's \<^verbatim>\<open>Math.random()\<close>.\<close>

definition draw_password :: "int \<Rightarrow> world \<Rightarrow> jsstring \<times> world" where
  "draw_password n w =
     (let (pwd, src) = generatePassword n (mathRandom w)
      in (pwd, w\<lparr>mathRandom := src\<rparr>))"

text \<open>
  The object literal the flows push:
  \<^verbatim>\<open>{ id: crypto.randomUUID(), name, secret, createdAt: new Date().toISOString(),
  deprecated: false }\<close>.
\<close>

definition new_entry :: "jsstring \<Rightarrow> jsstring \<Rightarrow> world \<Rightarrow> entry \<times> world" where
  "new_entry nm enc w =
     (\<lparr>entry_id = randomUUID w 0, name = nm, secret = enc, createdAt = clock w 0,
       deprecated = False, deprecatedAt = None\<rparr>,
      w\<lparr>randomUUID := rest (randomUUID w), clock := rest (clock w)\<rparr>)"

text \<open>\<^verbatim>\<open>generateFlow\<close>; \<open>answer\<close> is what the user types at "App/site name".\<close>

definition generateFlow :: "aes_256_gcm \<Rightarrow> 256 word \<Rightarrow> jsstring \<Rightarrow> world \<Rightarrow> world" where
  "generateFlow G masterKey answer w =
     (let (entries, w1) = loadStore w;
          (pwd, w2) = draw_password 12 w1;
          (enc, w3) = encryptText G masterKey pwd w2;
          (e, w4) = new_entry (trim answer) enc w3;
          w5 = saveStore (entries @ [e]) w4
      in console_log (NewPasswordFor answer pwd) w5)"

text \<open>
  \<^verbatim>\<open>entries.find(e => e.id === id)\<close> returns a reference to the first matching object
  of the array: its position. \<open>None\<close> is \<^verbatim>\<open>undefined\<close>.
\<close>

fun find_ref :: "('a \<Rightarrow> bool) \<Rightarrow> 'a list \<Rightarrow> nat option" where
  "find_ref P [] = None"
| "find_ref P (x # xs) = (if P x then Some 0 else map_option Suc (find_ref P xs))"

text \<open>How a flow ends: it returns to the menu, it calls \<^verbatim>\<open>process.exit\<close>, or it
  throws an exception that nothing catches, which ends the process.\<close>

datatype outcome = Returned world | Exited int world | Threw js_error world

fun world_of :: "outcome \<Rightarrow> world" where
  "world_of (Returned w) = w"
| "world_of (Exited c w) = w"
| "world_of (Threw e w) = w"

text \<open>The answers to the prompts of \<^verbatim>\<open>getFlow\<close> and \<^verbatim>\<open>showDeprecated\<close>.\<close>

datatype on_error = ErrBack | ErrRegen

datatype next_choice = Regen | ShowOld | Back | Exit

record get_answers =
  selected :: jsstring
  onError :: on_error
  next_step :: next_choice
  selected_old :: jsstring

text \<open>\<^verbatim>\<open>showDeprecated\<close>: the call of \<^verbatim>\<open>decryptText\<close> is not inside a \<^verbatim>\<open>try\<close>.\<close>

definition showDeprecated :: "aes_256_gcm \<Rightarrow> 256 word \<Rightarrow> jsstring \<Rightarrow> world \<Rightarrow> outcome" where
  "showDeprecated G masterKey sel w =
     (let (entries, w1) = loadStore w;
          old = filter deprecated entries
      in if old = [] then Returned (console_log NoDeprecated w1)
         else
           case find_ref (\<lambda>e. entry_id e = sel) entries of
             None \<Rightarrow> Threw TypeError w1
           | Some i \<Rightarrow>
               (case decryptText G masterKey (secret (entries ! i)) of
                  Inl err \<Rightarrow> Threw err w1
                | Inr pwd \<Rightarrow> Returned (console_log (DeprecatedFor (name (entries ! i)) pwd) w1)))"

text \<open>
  The branch \<^verbatim>\<open>onError === 'regen'\<close> of \<^verbatim>\<open>getFlow\<close> (Replace-on-corruption): the store
  is loaded again, the entry is filtered out by id and a new one is pushed.
\<close>

definition getFlow_replace :: "aes_256_gcm \<Rightarrow> 256 word \<Rightarrow> entry \<Rightarrow> world \<Rightarrow> world" where
  "getFlow_replace G masterKey entry w =
     (let (s2, w1) = loadStore w;
          s2' = filter (\<lambda>e. entry_id e \<noteq> entry_id entry) s2;
          (newPwd, w2) = draw_password 12 w1;
          (newEnc, w3) = encryptText G masterKey newPwd w2;
          (e, w4) = new_entry (name entry) newEnc w3;
          w5 = saveStore (s2' @ [e]) w4
      in console_log (Replaced newPwd) w5)"

text \<open>
  The branch \<^verbatim>\<open>next === 'regen'\<close> of \<^verbatim>\<open>getFlow\<close> (Rotate): \<^verbatim>\<open>deprecateEntry(entry)\<close>
  changes the object at position \<open>i\<close> of the loaded array, a new entry with the same
  name is pushed, and the array is saved.
\<close>

definition getFlow_rotate :: "aes_256_gcm \<Rightarrow> 256 word \<Rightarrow> nat \<Rightarrow> entry list \<Rightarrow> world \<Rightarrow> world" where
  "getFlow_rotate G masterKey i entries w =
     (let now = clock w 0;
          w1 = w\<lparr>clock := rest (clock w)\<rparr>;
          entries1 = entries[i := deprecateEntry (entries ! i) now];
          (newPwd, w2) = draw_password 12 w1;
          (newEnc, w3) = encryptText G masterKey newPwd w2;
          (e, w4) = new_entry (name (entries1 ! i)) newEnc w3;
          w5 = saveStore (entries1 @ [e]) w4
      in console_log (NewPassword newPwd) w5)"

text \<open>
  \<^verbatim>\<open>getFlow\<close>. The prompt "Select entry" offers the ids of the entries that are not
  deprecated; \<open>selected ans\<close> is the id it returns.
\<close>

definition getFlow :: "aes_256_gcm \<Rightarrow> 256 word \<Rightarrow> get_answers \<Rightarrow> world \<Rightarrow> outcome" where
  "getFlow G masterKey ans w =
     (let (entries, w1) = loadStore w;
          active = filter (\<lambda>e. \<not> deprecated e) entries
      in if active = [] then Returned (console_log NoActive w1)
         else
           case find_ref (\<lambda>e. entry_id e = selected ans) entries of
             None \<Rightarrow>
               (let w2 = console_log DecryptionFailed w1
                in case onError ans of
                     ErrBack \<Rightarrow> Returned w2
                   | ErrRegen \<Rightarrow> Threw TypeError w2)
           | Some i \<Rightarrow>
               (case decryptText G masterKey (secret (entries ! i)) of
                  Inl err \<Rightarrow>
                    (let w2 = console_log DecryptionFailed w1
                     in case onError ans of
                          ErrBack \<Rightarrow> Returned w2
                        | ErrRegen \<Rightarrow> Returned (getFlow_replace G masterKey (entries ! i) w2))
                | Inr pwd \<Rightarrow>
                    (let w2 = console_log (PasswordFor (name (entries ! i)) pwd) w1
                     in case next_step ans of
                          Regen \<Rightarrow> Returned (getFlow_rotate G masterKey i entries w2)
                        | ShowOld \<Rightarrow> showDeprecated G masterKey (selected_old ans) w2
                        | Back \<Rightarrow> Returned w2
                        | Exit \<Rightarrow> Exited 0 w2)))"

text \<open>
  \<^verbatim>\<open>mainMenu\<close> on the list of the user's choices: it runs the chosen flow and calls
  itself; an exception of a flow ends it. With no choice left the menu waits.
\<close>

datatype action = Gen jsstring | Get get_answers | Delete jsstring bool | Quit

fun mainMenu :: "aes_256_gcm \<Rightarrow> 256 word \<Rightarrow> action list \<Rightarrow> world \<Rightarrow> outcome" where
  "mainMenu G masterKey [] w = Returned w"
| "mainMenu G masterKey (Gen answer # as) w =
     mainMenu G masterKey as (generateFlow G masterKey answer w)"
| "mainMenu G masterKey (Get ans # as) w =
     (case getFlow G masterKey ans w of
        Returned w' \<Rightarrow> mainMenu G masterKey as w'
      | other \<Rightarrow> other)"
| "mainMenu G masterKey (Delete sel confirm # as) w =
     mainMenu G masterKey as (deleteFlow sel confirm w)"
| "mainMenu G masterKey (Quit # as) w = Exited 0 w"

text \<open>The entries on disk; none when the file does not exist.\<close>

definition stored :: "world \<Rightarrow> entry list" where
  "stored w = (case store_file w of None \<Rightarrow> [] | Some es \<Rightarrow> es)"

section \<open>Concrete inputs\<close>

text \<open>
  Inputs on which the definitions are evaluated below: entries, a world, a key, and a
  small cipher of the shape of \<open>aes_256_gcm\<close> that stands in for AES where a value has to
  be computed. No general property depends on them.
\<close>

definition example_entry :: "string \<Rightarrow> string \<Rightarrow> string \<Rightarrow> bool \<Rightarrow> entry" where
  "example_entry i n s d =
     \<lparr>entry_id = js i, name = js n, secret = js s, createdAt = js ''2025-08-05T12:34:56.789Z'',
      deprecated = d,
      deprecatedAt = (if d then Some (js ''2025-08-06T08:00:00.000Z'') else None)\<rparr>"

text \<open>The Number that the literal \<^verbatim>\<open>0.7\<close> denotes.\<close>

definition example_draw :: real where
  "example_draw = 6305039478318694 / 9007199254740992"

definition example_world :: "entry list option \<Rightarrow> world" where
  "example_world file =
     \<lparr>store_file = file, store_writes = 0, console = [],
      mathRandom = (\<lambda>n. example_draw),
      randomBytes = (\<lambda>n. 0x0102030405060708090A0B0C + of_nat n),
      randomUUID = (\<lambda>n. js ''uuid-'' @ [of_nat (97 + n)]),
      clock = (\<lambda>n. js ''2025-08-07T09:00:0'' @ [of_nat (48 + n)])\<rparr>"

definition example_key :: "256 word" where
  "example_key = 0x000102030405060708090A0B0C0D0E0F101112131415161718191A1B1C1D1E1F"

definition toy_gcm :: aes_256_gcm where
  "toy_gcm =
     \<lparr>keystream = (\<lambda>key iv i. ucast key + of_nat (length iv) + of_nat (7 * i)),
      auth_tag = (\<lambda>key iv ct. ucast key + of_nat (foldl (\<lambda>acc b. 31 * acc + unat b) 7 (iv @ ct)))\<rparr>"

text \<open>
  The payload that \<open>toy_gcm\<close> produces for the plaintext \<^verbatim>\<open>pw\<close> under \<open>example_key\<close> with
  the nonce \<^verbatim>\<open>0102030405060708090a0b0c\<close>, and a store that holds it.
\<close>

definition example_payload :: string where
  "example_payload = ''0102030405060708090a0b0c:5b45:1011121314151737bee0c93187fa3c76''"

definition example_store :: "entry list" where
  "example_store =
     [example_entry ''id1'' ''example.com'' example_payload False,
      example_entry ''id2'' ''other.org'' example_payload False]"

definition example_answers :: "string \<Rightarrow> on_error \<Rightarrow> next_choice \<Rightarrow> string \<Rightarrow> get_answers" where
  "example_answers sel err nxt old =
     \<lparr>selected = js sel, onError = err, next_step = nxt, selected_old = js old\<rparr>"

definition example_rotated :: "entry list" where
  "example_rotated =
     stored (world_of (getFlow toy_gcm example_key (example_answers ''id1'' ErrBack Regen [])
       (example_world (Some example_store))))"

text \<open>
  A world in which \<^verbatim>\<open>crypto.randomUUID()\<close> returns the same value twice, the store
  that \<^verbatim>\<open>generateFlow\<close> writes there from no file, and the store after Rotate on its
  entry.
\<close>

definition repeated_uuid :: jsstring where
  "repeated_uuid = js ''3f2b8c1e-5a7d-4e9b-8c6f-1d2e3a4b5c6d''"

definition repeated_uuid_world :: world where
  "repeated_uuid_world = (example_world None)\<lparr>randomUUID := (\<lambda>n. repeated_uuid)\<rparr>"

definition repeated_uuid_before :: "entry list" where
  "repeated_uuid_before =
     stored (generateFlow toy_gcm example_key (js ''example.com'') repeated_uuid_world)"

definition repeated_uuid_after :: "entry list" where
  "repeated_uuid_after =
     stored (world_of (getFlow toy_gcm example_key
       \<lparr>selected = repeated_uuid, onError = ErrBack, next_step = Regen, selected_old = []\<rparr>
       (generateFlow toy_gcm example_key (js ''example.com'') repeated_uuid_world)))"

text \<open>The exception that ended a flow, if one did.\<close>

fun thrown :: "outcome \<Rightarrow> js_error option" where
  "thrown (Threw e w) = Some e"
| "thrown (Returned w) = None"
| "thrown (Exited c w) = None"

text \<open>
  A store with two entries whose secret is not a payload: one deprecated, one not.
\<close>

definition corrupted_store :: "entry list" where
  "corrupted_store =
     example_store @
     [example_entry ''id3'' ''example.com'' ''corrupted'' True,
      example_entry ''id4'' ''broken.net'' ''corrupted'' False]"

section \<open>Properties of the delete flow\<close>

lemma set_foldl_set_add: "set (foldl set_add acc xs) = set acc \<union> set xs"
  by (induction xs arbitrary: acc) (auto simp: set_add_def)

lemma set_new_Set: "set (new_Set xs) = set xs"
  by (simp add: new_Set_def set_foldl_set_add)

lemma new_Set_Nil_iff: "new_Set xs = [] \<longleftrightarrow> xs = []"
  using set_new_Set [of xs] by (metis set_empty)

lemma length_filter_split:
  "int (length xs) - int (length (filter (\<lambda>e. \<not> P e) xs)) = int (length (filter P xs))"
  using sum_length_filter_compl [of P xs] by simp

text \<open>
  Claim C8. For every store and every name offered by the prompt, a confirmed delete
  writes back the entries whose name differs from the chosen one, in their order and
  unchanged, so every entry with that name is gone whether deprecated or not, and the
  count it prints is the number of entries removed, which is the decrease of the number
  of entries.
\<close>

theorem deleteFlow_removes_all_by_name:
  assumes "store_file w = Some es" and "sel \<in> set (new_Set (map name es))"
  shows "store_file (deleteFlow sel True w) = Some (filter (\<lambda>e. name e \<noteq> sel) es)
       \<and> (\<forall>e \<in> set es. name e = sel \<longrightarrow>
             e \<notin> set (the (store_file (deleteFlow sel True w))))
       \<and> console (deleteFlow sel True w)
           = console w @ [Deleted (int (length (filter (\<lambda>e. name e = sel) es))) sel]
       \<and> int (length (the (store_file (deleteFlow sel True w))))
           = int (length es) - int (length (filter (\<lambda>e. name e = sel) es))"
proof -
  from assms(2) have ne: "new_Set (map name es) \<noteq> []" by auto
  have cnt: "int (length es) - int (length (filter (\<lambda>e. name e \<noteq> sel) es))
      = int (length (filter (\<lambda>e. name e = sel) es))"
    using length_filter_split [of es "\<lambda>e. name e = sel"] by simp
  have st: "store_file (deleteFlow sel True w) = Some (filter (\<lambda>e. name e \<noteq> sel) es)"
    using assms(1) ne by (simp add: deleteFlow_def loadStore_def saveStore_def console_log_def Let_def)
  have co: "console (deleteFlow sel True w)
      = console w @ [Deleted (int (length (filter (\<lambda>e. name e = sel) es))) sel]"
    using assms(1) ne cnt
    by (simp add: deleteFlow_def loadStore_def saveStore_def console_log_def Let_def)
  from st co cnt show ?thesis by auto
qed


theorem deleteFlow_removes_all_by_name_witness:
  "js ''example.com'' \<in> set (new_Set (map name
       [example_entry ''id1'' ''example.com'' ''00:00:00'' False,
        example_entry ''id2'' ''other.org'' ''00:00:00'' False,
        example_entry ''id3'' ''example.com'' ''00:00:00'' True,
        example_entry ''id4'' ''example.com'' ''00:00:00'' True]))
   \<and> store_file (deleteFlow (js ''example.com'') True (example_world (Some
       [example_entry ''id1'' ''example.com'' ''00:00:00'' False,
        example_entry ''id2'' ''other.org'' ''00:00:00'' False,
        example_entry ''id3'' ''example.com'' ''00:00:00'' True,
        example_entry ''id4'' ''example.com'' ''00:00:00'' True])))
     = Some [example_entry ''id2'' ''other.org'' ''00:00:00'' False]
   \<and> console (deleteFlow (js ''example.com'') True (example_world (Some
       [example_entry ''id1'' ''example.com'' ''00:00:00'' False,
        example_entry ''id2'' ''other.org'' ''00:00:00'' False,
        example_entry ''id3'' ''example.com'' ''00:00:00'' True,
        example_entry ''id4'' ''example.com'' ''00:00:00'' True])))
     = [Deleted 3 (js ''example.com'')]"
  using deleteFlow_removes_all_by_name
    [of "example_world (Some
       [example_entry ''id1'' ''example.com'' ''00:00:00'' False,
        example_entry ''id2'' ''other.org'' ''00:00:00'' False,
        example_entry ''id3'' ''example.com'' ''00:00:00'' True,
        example_entry ''id4'' ''example.com'' ''00:00:00'' True])"
       "[example_entry ''id1'' ''example.com'' ''00:00:00'' False,
        example_entry ''id2'' ''other.org'' ''00:00:00'' False,
        example_entry ''id3'' ''example.com'' ''00:00:00'' True,
        example_entry ''id4'' ''example.com'' ''00:00:00'' True]"
       "js ''example.com''"]
  by (simp add: example_world_def example_entry_def js_def new_Set_def set_add_def)

text \<open>
  Claim C10. When the confirmation prompt of the delete flow is reached and the user
  declines, the flow returns with the world as it found it: the store file is not
  written, and the entries on disk are those that were loaded.
\<close>

theorem deleteFlow_declined_writes_nothing:
  assumes "new_Set (map name (fst (loadStore w))) \<noteq> []"
  shows "deleteFlow sel False w = w
       \<and> store_writes (deleteFlow sel False w) = store_writes w
       \<and> store_file (deleteFlow sel False w) = Some (fst (loadStore w))"
proof -
  from assms obtain es where es: "store_file w = Some es"
    by (cases "store_file w") (auto simp: loadStore_def new_Set_def)
  then have "loadStore w = (es, w)"
    by (simp add: loadStore_def)
  with assms es show ?thesis
    by (simp add: deleteFlow_def)
qed

theorem deleteFlow_declined_writes_nothing_witness:
  "new_Set (map name (fst (loadStore (example_world (Some
       [example_entry ''id1'' ''example.com'' ''00:00:00'' False,
        example_entry ''id3'' ''example.com'' ''00:00:00'' True]))))) \<noteq> []
   \<and> store_writes (deleteFlow (js ''example.com'') False (example_world (Some
       [example_entry ''id1'' ''example.com'' ''00:00:00'' False,
        example_entry ''id3'' ''example.com'' ''00:00:00'' True]))) = 0
   \<and> store_file (deleteFlow (js ''example.com'') False (example_world (Some
       [example_entry ''id1'' ''example.com'' ''00:00:00'' False,
        example_entry ''id3'' ''example.com'' ''00:00:00'' True])))
     = Some [example_entry ''id1'' ''example.com'' ''00:00:00'' False,
             example_entry ''id3'' ''example.com'' ''00:00:00'' True]"
  using deleteFlow_declined_writes_nothing
    [of "example_world (Some
       [example_entry ''id1'' ''example.com'' ''00:00:00'' False,
        example_entry ''id3'' ''example.com'' ''00:00:00'' True])" "js ''example.com''"]
  by (simp add: example_world_def example_entry_def js_def new_Set_def set_add_def
      loadStore_def)

section \<open>The world after the steps of a flow\<close>

lemma snd_draw_password:
  "snd (draw_password n w) = w\<lparr>mathRandom := snd (generatePassword n (mathRandom w))\<rparr>"
  by (simp add: draw_password_def split_beta)

lemma fst_draw_password:
  "fst (draw_password n w) = fst (generatePassword n (mathRandom w))"
  by (simp add: draw_password_def split_beta)

lemma snd_encryptText:
  "snd (encryptText G k p w) = w\<lparr>randomBytes := rest (randomBytes w)\<rparr>"
  by (simp add: encryptText_def Let_def)

lemma fst_encryptText:
  "fst (encryptText G k p w) = encrypt_with G k (be_bytes IV_LEN (randomBytes w 0)) p"
  by (simp add: encryptText_def Let_def)

lemma snd_new_entry:
  "snd (new_entry nm enc w) = w\<lparr>randomUUID := rest (randomUUID w), clock := rest (clock w)\<rparr>"
  by (simp add: new_entry_def)

lemma fst_new_entry:
  "fst (new_entry nm enc w) =
     \<lparr>entry_id = randomUUID w 0, name = nm, secret = enc, createdAt = clock w 0,
      deprecated = False, deprecatedAt = None\<rparr>"
  by (simp add: new_entry_def)

lemmas flow_steps =
  snd_draw_password fst_draw_password snd_encryptText fst_encryptText snd_new_entry
  fst_new_entry
  saveStore_def console_log_def split_beta Let_def

lemma find_ref_Some:
  "find_ref P xs = Some i \<Longrightarrow> i < length xs \<and> P (xs ! i) \<and> (\<forall>j<i. \<not> P (xs ! j))"
proof (induction xs arbitrary: i)
  case Nil
  then show ?case by simp
next
  case (Cons x xs)
  show ?case
  proof (cases "P x")
    case True
    with Cons.prems show ?thesis by simp
  next
    case False
    with Cons.prems obtain j where j: "find_ref P xs = Some j" and i: "i = Suc j"
      by auto
    from Cons.IH [OF j] False i show ?thesis
      by (auto simp: nth_Cons split: nat.splits)
  qed
qed

lemma find_ref_distinct:
  "distinct (map f xs) \<Longrightarrow> i < length xs \<Longrightarrow> find_ref (\<lambda>e. f e = f (xs ! i)) xs = Some i"
proof (induction xs arbitrary: i)
  case Nil
  then show ?case by simp
next
  case (Cons x xs)
  show ?case
  proof (cases i)
    case 0
    then show ?thesis by simp
  next
    case (Suc j)
    with Cons.prems have "f x \<noteq> f (xs ! j)" and "j < length xs" and "distinct (map f xs)"
      by auto
    with Cons.IH [of j] Suc show ?thesis by simp
  qed
qed

section \<open>Rotate\<close>

text \<open>
  The store that the Rotate branch saves: the loaded entries with the one at position
  \<open>i\<close> deprecated at the current time, followed by a new entry.
\<close>

lemma getFlow_rotate_store:
  "store_file (getFlow_rotate G k i es w) =
     Some (es[i := deprecateEntry (es ! i) (clock w 0)] @
       [\<lparr>entry_id = randomUUID w 0,
         name = name ((es[i := deprecateEntry (es ! i) (clock w 0)]) ! i),
         secret = fst (encryptText G k (fst (generatePassword 12 (mathRandom w))) w),
         createdAt = clock w 1, deprecated = False, deprecatedAt = None\<rparr>])"
  by (simp add: getFlow_rotate_def flow_steps rest_def)

lemma getFlow_Regen:
  assumes "store_file w = Some es"
    and "filter (\<lambda>e. \<not> deprecated e) es \<noteq> []"
    and "find_ref (\<lambda>e. entry_id e = selected ans) es = Some i"
    and "decryptText G k (secret (es ! i)) = Inr pwd"
    and "next_step ans = Regen"
  shows "getFlow G k ans w
       = Returned (getFlow_rotate G k i es (console_log (PasswordFor (name (es ! i)) pwd) w))"
  using assms by (simp add: getFlow_def loadStore_def)


text \<open>
  Rotate acts on the entry that \<^verbatim>\<open>find\<close> returns for the selected id. Afterwards that
  entry is at the same position of the saved store with the same id, name, secret and
  creation time, it is deprecated with the time of the call, every other loaded entry
  is as it was, and one entry has been added at the end.
\<close>

lemma rotate_frame:
  assumes "store_file w = Some es"
    and "filter (\<lambda>e. \<not> deprecated e) es \<noteq> []"
    and "find_ref (\<lambda>e. entry_id e = selected ans) es = Some i"
    and "decryptText G k (secret (es ! i)) = Inr pwd"
    and "next_step ans = Regen"
  shows "\<exists>e. getFlow G k ans w
           = Returned (getFlow_rotate G k i es (console_log (PasswordFor (name (es ! i)) pwd) w))
       \<and> stored (world_of (getFlow G k ans w))
           = es[i := (es ! i)\<lparr>deprecated := True, deprecatedAt := Some (clock w 0)\<rparr>] @ [e]
       \<and> entry_id e = randomUUID w 0 \<and> name e = name (es ! i) \<and> createdAt e = clock w 1
       \<and> secret e = fst (encryptText G k (fst (generatePassword 12 (mathRandom w))) w)
       \<and> \<not> deprecated e \<and> deprecatedAt e = None"
proof -
  from find_ref_Some [OF assms(3)] have i: "i < length es" by simp
  show ?thesis
    unfolding getFlow_Regen [OF assms]
    using i
    by (simp add: stored_def getFlow_rotate_store console_log_def deprecateEntry_def
        fst_encryptText)
qed

section \<open>The concrete payload\<close>

lemma be_bytes_numeral:
  "be_bytes (numeral n) w
     = ucast (drop_bit (8 * pred_numeral n) w) # be_bytes (pred_numeral n) w"
  by (simp add: numeral_eq_Suc)

lemma example_split:
  "split_colon (js example_payload)
     = [js ''0102030405060708090a0b0c'', js ''5b45'', js ''1011121314151737bee0c93187fa3c76'']"
  by (simp add: example_payload_def split_colon_def js_def colon_def)

lemma example_iv:
  "Buffer_from_hex (js ''0102030405060708090a0b0c'') = [1, 2, 3, 4, 5, 6, 7, 8, 9, 10, 11, 12]"
  by (simp add: js_def unhex_def)

lemma example_ct: "Buffer_from_hex (js ''5b45'') = [0x5b, 0x45]"
  by (simp add: js_def unhex_def)

lemma example_tag:
  "Buffer_from_hex (js ''1011121314151737bee0c93187fa3c76'')
     = [0x10, 0x11, 0x12, 0x13, 0x14, 0x15, 0x17, 0x37, 0xbe, 0xe0, 0xc9, 0x31, 0x87, 0xfa,
        0x3c, 0x76]"
  by (simp add: js_def unhex_def)

lemma example_update:
  "gcm_update toy_gcm example_key [1, 2, 3, 4, 5, 6, 7, 8, 9, 10, 11, 12] [0x5b, 0x45]
     = [112, 119]"
  by (simp add: gcm_update_def toy_gcm_def example_key_def upt_rec)

lemma example_getAuthTag:
  "getAuthTag toy_gcm example_key [1, 2, 3, 4, 5, 6, 7, 8, 9, 10, 11, 12] [0x5b, 0x45]
     = [0x10, 0x11, 0x12, 0x13, 0x14, 0x15, 0x17, 0x37, 0xbe, 0xe0, 0xc9, 0x31, 0x87, 0xfa,
        0x3c, 0x76]"
  by (simp add: getAuthTag_def toy_gcm_def example_key_def be_bytes_numeral)

lemma decryptText_example: "decryptText toy_gcm example_key (js example_payload) = Inr (js ''pw'')"
  by (simp add: decryptText_def example_split example_iv example_ct example_tag
      example_update example_getAuthTag dec_final_def valid_tag_length_def)
    (simp add: js_def)

section \<open>Rotate changes the deprecation fields only\<close>

text \<open>
  Claim C9. Rotate changes the entry it acts on in place and only in its deprecation
  fields: after the flow the entry at the same position has the id, name, secret and
  creation time it had, \<open>deprecated\<close> is true and \<open>deprecatedAt\<close> is the time of the call;
  every other entry that was loaded is unchanged.
\<close>

theorem rotate_changes_only_deprecation_fields:
  fixes G k ans w
  defines "after \<equiv> stored (world_of (getFlow G k ans w))"
  assumes "store_file w = Some es"
    and "filter (\<lambda>e. \<not> deprecated e) es \<noteq> []"
    and "find_ref (\<lambda>e. entry_id e = selected ans) es = Some i"
    and "decryptText G k (secret (es ! i)) = Inr pwd"
    and "next_step ans = Regen"
  shows "length after = Suc (length es)
       \<and> entry_id (after ! i) = entry_id (es ! i) \<and> name (after ! i) = name (es ! i)
       \<and> secret (after ! i) = secret (es ! i) \<and> createdAt (after ! i) = createdAt (es ! i)
       \<and> deprecated (after ! i) \<and> deprecatedAt (after ! i) = Some (clock w 0)
       \<and> (\<forall>j<length es. j \<noteq> i \<longrightarrow> after ! j = es ! j)"
proof -
  from find_ref_Some [OF assms(4)] have i: "i < length es" by simp
  from rotate_frame [OF assms(2-6)] obtain e where
    "after = es[i := (es ! i)\<lparr>deprecated := True, deprecatedAt := Some (clock w 0)\<rparr>] @ [e]"
    unfolding after_def by blast
  with i show ?thesis
    by (simp add: nth_append)
qed

theorem rotate_changes_only_deprecation_fields_witness:
  "store_file (example_world (Some example_store)) = Some example_store
   \<and> filter (\<lambda>e. \<not> deprecated e) example_store \<noteq> []
   \<and> find_ref (\<lambda>e. entry_id e = selected (example_answers ''id1'' ErrBack Regen []))
        example_store = Some 0
   \<and> decryptText toy_gcm example_key (secret (example_store ! 0)) = Inr (js ''pw'')
   \<and> next_step (example_answers ''id1'' ErrBack Regen []) = Regen
   \<and> length example_rotated = 3
   \<and> entry_id (example_rotated ! 0) = js ''id1''
   \<and> name (example_rotated ! 0) = js ''example.com''
   \<and> secret (example_rotated ! 0) = js example_payload
   \<and> createdAt (example_rotated ! 0) = js ''2025-08-05T12:34:56.789Z''
   \<and> deprecated (example_rotated ! 0)
   \<and> deprecatedAt (example_rotated ! 0) = Some (js ''2025-08-07T09:00:00'')
   \<and> example_rotated ! 1 = example_store ! 1"
proof -
  have h1: "store_file (example_world (Some example_store)) = Some example_store"
    by (simp add: example_world_def)
  have h2: "filter (\<lambda>e. \<not> deprecated e) example_store \<noteq> []"
    by (simp add: example_store_def example_entry_def)
  have h3: "find_ref (\<lambda>e. entry_id e = selected (example_answers ''id1'' ErrBack Regen []))
      example_store = Some 0"
    by (simp add: example_store_def example_entry_def example_answers_def)
  have h4: "decryptText toy_gcm example_key (secret (example_store ! 0)) = Inr (js ''pw'')"
    by (simp add: example_store_def example_entry_def decryptText_example)
  have h5: "next_step (example_answers ''id1'' ErrBack Regen []) = Regen"
    by (simp add: example_answers_def)
  have c: "clock (example_world (Some example_store)) 0 = js ''2025-08-07T09:00:00''"
    by (simp add: example_world_def js_def)
  show ?thesis
    using h1 h2 h3 h4 h5 c rotate_changes_only_deprecation_fields [OF h1 h2 h3 h4 h5]
    unfolding example_rotated_def [symmetric]
    by (simp add: example_store_def example_entry_def)
qed

section \<open>What each flow does to the store\<close>

lemma fst_loadStore: "fst (loadStore w) = stored w"
  by (simp add: loadStore_def stored_def split: option.splits)

lemma stored_loadStore: "stored (snd (loadStore w)) = stored w"
  by (simp add: loadStore_def stored_def split: option.splits)

lemma loadStore_sources:
  "clock (snd (loadStore w)) = clock w"
  "mathRandom (snd (loadStore w)) = mathRandom w"
  "randomUUID (snd (loadStore w)) = randomUUID w"
  "randomBytes (snd (loadStore w)) = randomBytes w"
  "console (snd (loadStore w)) = console w"
  by (simp_all add: loadStore_def split: option.splits)

lemma stored_log: "stored (console_log m w) = stored w"
  by (simp add: console_log_def stored_def)

lemma stored_generateFlow:
  "\<exists>e. stored (generateFlow G k answer w) = stored w @ [e]
      \<and> \<not> deprecated e \<and> deprecatedAt e = None"
  by (simp add: generateFlow_def flow_steps stored_def fst_loadStore [unfolded stored_def])

lemma stored_deleteFlow:
  "stored (deleteFlow sel confirm w)
     = (if confirm then filter (\<lambda>e. name e \<noteq> sel) (stored w) else stored w)"
proof (cases "new_Set (map name (stored w)) = []")
  case True
  then have "stored w = []" by (simp add: new_Set_Nil_iff)
  with True show ?thesis
    by (simp add: deleteFlow_def split_beta fst_loadStore stored_log stored_loadStore)
next
  case False
  then show ?thesis
    by (simp add: deleteFlow_def split_beta fst_loadStore stored_log stored_loadStore
        Let_def saveStore_def stored_def [of "_\<lparr>store_file := _, store_writes := _\<rparr>"])
qed

lemma stored_showDeprecated: "stored (world_of (showDeprecated G k sel w)) = stored w"
  by (simp add: showDeprecated_def split_beta Let_def stored_log stored_loadStore
      split: option.splits sum.splits)

lemma stored_getFlow_replace:
  "\<exists>e. stored (getFlow_replace G k x w) = filter (\<lambda>y. entry_id y \<noteq> entry_id x) (stored w) @ [e]
      \<and> \<not> deprecated e \<and> deprecatedAt e = None"
  by (simp add: getFlow_replace_def flow_steps stored_def fst_loadStore [unfolded stored_def])

lemma stored_getFlow_rotate:
  "\<exists>e. stored (getFlow_rotate G k i es w) = es[i := deprecateEntry (es ! i) (clock w 0)] @ [e]
      \<and> \<not> deprecated e \<and> deprecatedAt e = None"
  by (simp add: stored_def getFlow_rotate_store)

text \<open>
  The store after \<^verbatim>\<open>getFlow\<close> is the store before, or the store before without the
  entries of one id and with a new entry (Replace-on-corruption), or, only when the
  answer to "Next?" is \<^verbatim>\<open>regen\<close>, the store before with one entry deprecated and a new
  entry (Rotate).
\<close>

lemma stored_getFlow:
  "stored (world_of (getFlow G k ans w)) = stored w
   \<or> (\<exists>x e. stored (world_of (getFlow G k ans w))
                = filter (\<lambda>y. entry_id y \<noteq> x) (stored w) @ [e]
            \<and> \<not> deprecated e \<and> deprecatedAt e = None)
   \<or> (\<exists>i now e. next_step ans = Regen \<and> i < length (stored w)
            \<and> stored (world_of (getFlow G k ans w))
                = (stored w)[i := deprecateEntry (stored w ! i) now] @ [e]
            \<and> \<not> deprecated e \<and> deprecatedAt e = None)"
proof -
  define w1 where "w1 = snd (loadStore w)"
  have w1: "stored w1 = stored w"
    by (simp add: w1_def stored_loadStore)
  show ?thesis
  proof (cases "filter (\<lambda>e. \<not> deprecated e) (stored w) = []")
    case True
    then show ?thesis
      by (simp add: getFlow_def split_beta fst_loadStore stored_log stored_loadStore)
  next
    case active: False
    show ?thesis
    proof (cases "find_ref (\<lambda>e. entry_id e = selected ans) (stored w)")
      case None
      with active show ?thesis
        by (simp add: getFlow_def split_beta fst_loadStore stored_log stored_loadStore Let_def
            split: on_error.splits)
    next
      case (Some i)
      note i = find_ref_Some [OF Some]
      show ?thesis
      proof (cases "decryptText G k (secret (stored w ! i))")
        case (Inl err)
        show ?thesis
        proof (cases "onError ans")
          case ErrBack
          with active Some Inl show ?thesis
            by (simp add: getFlow_def split_beta fst_loadStore stored_log stored_loadStore
                Let_def)
        next
          case ErrRegen
          from stored_getFlow_replace [of G k "stored w ! i" "console_log DecryptionFailed w1"]
          obtain e where "stored (getFlow_replace G k (stored w ! i) (console_log DecryptionFailed w1))
              = filter (\<lambda>y. entry_id y \<noteq> entry_id (stored w ! i)) (stored w) @ [e]"
            and "\<not> deprecated e" and "deprecatedAt e = None"
            by (auto simp: stored_log w1)
          with active Some Inl ErrRegen show ?thesis
            by (simp add: getFlow_def split_beta fst_loadStore Let_def w1_def) blast
        qed
      next
        case (Inr pwd)
        show ?thesis
        proof (cases "next_step ans")
          case Regen
          from stored_getFlow_rotate
            [of G k i "stored w" "console_log (PasswordFor (name (stored w ! i)) pwd) w1"]
          obtain e now where
            "stored (getFlow_rotate G k i (stored w)
                (console_log (PasswordFor (name (stored w ! i)) pwd) w1))
              = (stored w)[i := deprecateEntry (stored w ! i) now] @ [e]"
            and "\<not> deprecated e" and "deprecatedAt e = None"
            by blast
          with active Some Inr Regen i show ?thesis
            by (simp add: getFlow_def split_beta fst_loadStore Let_def w1_def) blast
        next
          case ShowOld
          with active Some Inr show ?thesis
            by (simp add: getFlow_def split_beta fst_loadStore Let_def stored_showDeprecated
                stored_log stored_loadStore)
        next
          case Back
          with active Some Inr show ?thesis
            by (simp add: getFlow_def split_beta fst_loadStore Let_def stored_log
                stored_loadStore)
        next
          case Exit
          with active Some Inr show ?thesis
            by (simp add: getFlow_def split_beta fst_loadStore Let_def stored_log
                stored_loadStore)
        qed
      qed
    qed
  qed
qed

section \<open>Password generator\<close>

text \<open>
  The rounded product of a Number below 1 and a positive integer is below the integer:
  the largest Number below 1 is \<open>1 - 2 ^ -53\<close>, and rounding moves a value by at most
  half the distance of its neighbours.
\<close>

lemma round_half_even_le: "real_of_int (round_half_even y) \<le> y + 1 / 2"
  unfolding round_half_even_def Let_def by (auto; linarith)

lemma pow2_powr: "pow2 e = 2 powr (real_of_int e)"
proof (cases "0 \<le> e")
  case True
  then show ?thesis
    by (simp add: pow2_def powr_realpow [symmetric])
next
  case False
  then have "real_of_int e = - real (nat (- e))" by simp
  with False show ?thesis
    by (simp add: pow2_def powr_minus powr_realpow [symmetric] field_simps del: of_nat_nat)
qed

lemma pow2_pos: "0 < pow2 e"
  by (simp add: pow2_powr)

lemma pow2_add: "pow2 (a + b) = pow2 a * pow2 b"
  by (simp add: pow2_powr powr_add)

lemma pow2_mono: "a \<le> b \<Longrightarrow> pow2 a \<le> pow2 b"
  by (simp add: pow2_powr)

lemma pow2_m1: "pow2 (- 1) = 1 / 2"
  by (simp add: pow2_def)

lemma scale_up_le: "scale_up k x \<le> 0"
proof (induction k arbitrary: x)
  case 0
  show ?case by simp
next
  case (Suc k)
  show ?case using Suc [of "2 * x"] by simp
qed

lemma scale_up_stop: "0 < k \<Longrightarrow> 1 \<le> x \<Longrightarrow> scale_up k x = 0"
  by (cases k) auto

lemma scale_up_step: "0 < k \<Longrightarrow> x < 1 \<Longrightarrow> scale_up k x = scale_up (k - 1) (2 * x) - 1"
  by (cases k) auto

lemma scale_up_half: "x < 1 / 2 \<Longrightarrow> 1 < k \<Longrightarrow> scale_up k x \<le> - 2"
proof -
  assume a: "x < 1 / 2" "1 < k"
  have "scale_up k x = scale_up (k - 1) (2 * x) - 1"
    using a by (simp add: scale_up_step)
  also have "\<dots> = scale_up (k - 1 - 1) (2 * (2 * x)) - 1 - 1"
    using a by (simp add: scale_up_step)
  finally show ?thesis
    using scale_up_le [of "k - 1 - 1" "2 * (2 * x)"] by simp
qed

lemma binade_small: "x < 1 / 2 \<Longrightarrow> binade x \<le> - 2"
  unfolding binade_def using scale_up_half [of x 1022] by simp

lemma binade_half: "1 / 2 \<le> x \<Longrightarrow> x < 1 \<Longrightarrow> binade x = - 1"
proof -
  assume a: "1 / 2 \<le> x" "x < 1"
  have "scale_up 1022 x = scale_up (1022 - 1) (2 * x) - 1"
    using a by (simp only: scale_up_step zero_less_numeral)
  also have "scale_up (1022 - 1) (2 * x) = 0"
    using a by (simp add: scale_up_stop)
  finally show ?thesis using a by (simp add: binade_def)
qed

lemma binade_ge1: "1 \<le> x \<Longrightarrow> pow2 (binade x) \<le> x"
proof -
  assume a: "1 \<le> x"
  define m where "m = nat \<lfloor>x\<rfloor>"
  have m: "0 < m" "real m \<le> x" using a by (auto simp: m_def)
  have "(2::nat) ^ (floorlog 2 m - 1) \<le> m"
    using floorlog_bounds [of m 2] m by simp
  then have "(2::real) ^ (floorlog 2 m - 1) \<le> real m"
    by (metis of_nat_le_iff of_nat_numeral of_nat_power)
  then have le: "(2::real) ^ (floorlog 2 m - 1) \<le> x" using m(2) by linarith
  have pos: "0 < floorlog 2 m" using m by (simp add: floorlog_def)
  then have "binade x = int (floorlog 2 m - 1)"
    using a by (simp add: binade_def m_def [symmetric] of_nat_diff)
  then show ?thesis using le by (simp add: pow2_def)
qed

lemma binade_lower: "1 / 2 \<le> x \<Longrightarrow> pow2 (binade x) \<le> x"
  using binade_ge1 [of x] binade_half [of x] by (cases "1 \<le> x") (auto simp: pow2_m1)

lemma to_double_le: "0 < x \<Longrightarrow> to_double x \<le> x + ulp x / 2"
proof -
  assume a: "0 < x"
  have u: "0 < ulp x" by (simp add: ulp_def pow2_pos)
  have "real_of_int (round_half_even (x / ulp x)) * ulp x \<le> (x / ulp x + 1 / 2) * ulp x"
    using round_half_even_le [of "x / ulp x"] u by (simp only: mult_le_cancel_right_pos)
  also have "\<dots> = x + ulp x / 2" using u by (simp add: field_simps)
  finally show ?thesis using a by (simp add: to_double_def)
qed

lemma is_double_below_1:
  assumes "is_double r" "0 \<le> r" "r < 1"
  shows "r \<le> 1 - 1 / 2 ^ 53"
proof (cases "r < 1 / 2")
  case True
  then show ?thesis by simp
next
  case False
  then have h: "1 / 2 \<le> r" by simp
  then have b: "binade \<bar>r\<bar> = - 1" using binade_half [of r] assms by simp
  have u: "ulp r = 1 / 2 ^ 53" by (simp add: ulp_def b pow2_def)
  define k where "k = round_half_even (r / ulp r)"
  have "to_double r = of_int k * ulp r"
    using h by (simp add: to_double_def k_def)
  then have r: "r = of_int k * (1 / 2 ^ 53)"
    using assms(1) by (simp only: is_double_def u)
  then have "of_int k < (2::real) ^ 53" using assms(3) by (simp add: field_simps)
  then have "real_of_int k < real_of_int (2 ^ 53)" by simp
  then have "k < 2 ^ 53" by (simp only: of_int_less_iff)
  then have "k \<le> 2 ^ 53 - 1" by simp
  then have "real_of_int k \<le> real_of_int (2 ^ 53 - 1)" by (simp only: of_int_le_iff)
  then have "real_of_int k \<le> 2 ^ 53 - 1" by simp
  then show ?thesis by (subst r) (simp add: field_simps)
qed

lemma to_double_times_less:
  assumes "is_double r" "0 \<le> r" "r < 1" "0 < n"
  shows "to_double (r * real n) < real n"
proof -
  define x where "x = r * real n"
  have r: "r \<le> 1 - 1 / 2 ^ 53" using is_double_below_1 assms by simp
  have n: "1 \<le> real n" using assms by simp
  have xn: "x \<le> real n * (1 - 1 / 2 ^ 53)"
    unfolding x_def using r n by (simp add: mult.commute [of r] del: of_nat_le_iff)
  have "0 \<le> x" unfolding x_def using assms by simp
  then consider "x = 0" | "0 < x" "x < 1 / 2" | "1 / 2 \<le> x"
    by linarith
  then have "to_double x < real n"
  proof cases
    case 1
    then show ?thesis using assms by (simp add: to_double_def)
  next
    case 2
    then have "binade \<bar>x\<bar> - 52 \<le> - 1" using binade_small [of x] by simp
    then have "ulp x \<le> 1 / 2" unfolding ulp_def using pow2_mono pow2_m1 by metis
    then show ?thesis using to_double_le [of x] 2 n by simp
  next
    case 3
    define b where "b = binade x"
    have pb: "pow2 b \<le> x" using 3 binade_lower by (simp add: b_def)
    have u: "ulp x = pow2 b * (1 / 2 ^ 52)"
      using 3 pow2_add [of b "- 52"] by (simp add: ulp_def b_def [symmetric] pow2_def)
    have "x < real n" using xn n by (simp add: field_simps) 
    then have "pow2 b < real n" using pb by simp
    then have "ulp x / 2 < real n * (1 / 2 ^ 53)" by (simp add: u)
    then have "x + ulp x / 2 < real n" using xn by (simp add: field_simps)
    then show ?thesis using to_double_le [of x] 3 by simp
  qed
  then show ?thesis by (simp add: x_def)
qed

lemma Math_floor_times_less:
  assumes "is_double r" "0 \<le> r" "r < 1" "0 < n"
  shows "Math_floor_times r n < n"
proof -
  have "\<lfloor>to_double (r * real n)\<rfloor> < int n"
    using to_double_times_less [OF assms] by (simp add: floor_less_iff)
  then show ?thesis using assms(4) by (simp add: Math_floor_times_def times_double_def)
qed

lemma unit_draws_rest: "unit_draws src \<Longrightarrow> unit_draws (rest src)"
  by (simp add: unit_draws_def rest_def)

lemma pick_in_set:
  assumes "unit_draws src" "s \<noteq> []"
  shows "pick s (src n) \<in> set s"
proof -
  from assms(1) have "is_double (src n)" "0 \<le> src n" "src n < 1"
    by (simp_all add: unit_draws_def)
  with assms(2) have "Math_floor_times (src n) (length s) < length s"
    by (intro Math_floor_times_less) simp_all
  then show ?thesis
    by (simp add: pick_def)
qed

lemma all_chars_not_Nil: "all_chars \<noteq> []"
  by (simp add: all_chars_def LOWER_def js_def)

declare fill.simps [simp del]

lemma fill_spec:
  assumes "unit_draws src"
  shows "\<exists>added. fst (fill len pw src) = pw @ added \<and> set added \<subseteq> set all_chars
           \<and> int (length (pw @ added)) = max (int (length pw)) len
           \<and> unit_draws (snd (fill len pw src))"
  using assms
proof (induction len pw src rule: fill.induct)
  case (1 len pw src)
  show ?case
  proof (cases "int (length pw) < len")
    case True
    from "1.IH" [OF True unit_draws_rest [OF "1.prems"]] obtain added where
      a: "fst (fill len (pw @ [pick all_chars (src 0)]) (rest src))
            = (pw @ [pick all_chars (src 0)]) @ added"
      and s: "set added \<subseteq> set all_chars"
      and l: "int (length ((pw @ [pick all_chars (src 0)]) @ added))
            = max (int (length (pw @ [pick all_chars (src 0)]))) len"
      and u: "unit_draws (snd (fill len (pw @ [pick all_chars (src 0)]) (rest src)))"
      by blast
    have p: "pick all_chars (src 0) \<in> set all_chars"
      using "1.prems" all_chars_not_Nil by (rule pick_in_set)
    have "fst (fill len pw src) = pw @ (pick all_chars (src 0) # added)"
      using True a by (simp add: fill.simps [of len pw src])
    moreover have "set (pick all_chars (src 0) # added) \<subseteq> set all_chars"
      using p s by simp
    moreover have "int (length (pw @ (pick all_chars (src 0) # added))) = max (int (length pw)) len"
      using True l by simp
    moreover have "unit_draws (snd (fill len pw src))"
      using True u by (simp add: fill.simps [of len pw src])
    ultimately show ?thesis by blast
  next
    case False
    then show ?thesis
      using "1.prems" by (simp add: fill.simps [of len pw src])
  qed
qed

lemma shuffle_spec:
  assumes "i < length pw" "unit_draws src"
  shows "mset (fst (shuffle i pw src)) = mset pw \<and> unit_draws (snd (shuffle i pw src))"
  using assms
proof (induction i arbitrary: pw src)
  case 0
  then show ?case by simp
next
  case (Suc i)
  define j where "j = Math_floor_times (src 0) (Suc i + 1)"
  define pw' where "pw' = pw[Suc i := pw ! j, j := pw ! Suc i]"
  from Suc.prems(2) have "is_double (src 0)" "0 \<le> src 0" "src 0 < 1"
    by (simp_all add: unit_draws_def)
  then have "j < Suc i + 1"
    unfolding j_def by (intro Math_floor_times_less) simp_all
  with Suc.prems(1) have j: "j < length pw" by simp
  have m: "mset pw' = mset pw"
    unfolding pw'_def using mset_swap [OF j Suc.prems(1)] .
  have "i < length pw'"
    using Suc.prems(1) by (simp add: pw'_def)
  from Suc.IH [OF this unit_draws_rest [OF Suc.prems(2)]] m show ?case
    by (simp add: j_def pw'_def Let_def)
qed

lemma class_not_Nil: "LOWER \<noteq> []" "UPPER \<noteq> []" "DIGITS \<noteq> []" "SPECIAL \<noteq> []"
  by (simp_all add: LOWER_def UPPER_def DIGITS_def SPECIAL_def js_def)

lemma generatePassword_spec:
  assumes "unit_draws src"
  shows "\<exists>l u d s added.
           mset (fst (generatePassword len0 src)) = mset ([l, u, d, s] @ added)
         \<and> l \<in> set LOWER \<and> u \<in> set UPPER \<and> d \<in> set DIGITS \<and> s \<in> set SPECIAL
         \<and> set added \<subseteq> set all_chars
         \<and> int (length ([l, u, d, s] @ added)) = max len0 8
         \<and> unit_draws (snd (generatePassword len0 src))"
proof -
  define len where "len = (if len0 < 8 then 8 else len0)"
  define pw where "pw = [pick LOWER (src 0), pick UPPER (src 1), pick DIGITS (src 2),
    pick SPECIAL (src 3)]"
  define src4 where "src4 = rest (rest (rest (rest src)))"
  define pw1 where "pw1 = fst (fill len pw src4)"
  define src1 where "src1 = snd (fill len pw src4)"
  have g: "generatePassword len0 src = shuffle (length pw1 - 1) pw1 src1"
    by (simp add: generatePassword_def Let_def split_beta len_def pw_def src4_def pw1_def
        src1_def)
  have u4: "unit_draws src4"
    unfolding src4_def using assms by (intro unit_draws_rest)
  from fill_spec [OF u4, of len pw] obtain added where
    a: "pw1 = pw @ added" and s: "set added \<subseteq> set all_chars"
    and l: "int (length (pw @ added)) = max (int (length pw)) len"
    and u1: "unit_draws src1"
    unfolding pw1_def src1_def by blast
  have "length pw1 - 1 < length pw1"
    by (simp add: a pw_def)
  from shuffle_spec [OF this u1]
  have m: "mset (fst (generatePassword len0 src)) = mset pw1"
    and u: "unit_draws (snd (generatePassword len0 src))"
    by (simp_all add: g)
  have "max (int (length pw)) len = max len0 8"
    by (simp add: pw_def len_def)
  with m u a s l show ?thesis
    using pick_in_set [OF assms class_not_Nil(1), of 0]
      pick_in_set [OF assms class_not_Nil(2), of 1]
      pick_in_set [OF assms class_not_Nil(3), of 2]
      pick_in_set [OF assms class_not_Nil(4), of 3]
    unfolding pw_def by (intro exI [of _ "pick LOWER (src 0)"] exI [of _ "pick UPPER (src 1)"]
      exI [of _ "pick DIGITS (src 2)"] exI [of _ "pick SPECIAL (src 3)"] exI [of _ added]) simp
qed

text \<open>
  Claim C4. For every requested length, \<^verbatim>\<open>generatePassword\<close> returns a string whose
  length is the larger of the request and 8, so 8 for every request below 8 and 12 for
  12; it holds a lower-case letter, an upper-case letter, a digit and a character of
  \<^verbatim>\<open>SPECIAL\<close>, and every character of it is of one of the four classes.
\<close>

theorem generatePassword_length_and_classes:
  fixes len0 src
  defines "pw \<equiv> fst (generatePassword len0 src)"
  assumes "unit_draws src"
  shows "int (length pw) = max len0 8
       \<and> (len0 < 8 \<longrightarrow> length pw = 8)
       \<and> (len0 = 12 \<longrightarrow> length pw = 12)
       \<and> (\<exists>c \<in> set pw. c \<in> set LOWER) \<and> (\<exists>c \<in> set pw. c \<in> set UPPER)
       \<and> (\<exists>c \<in> set pw. c \<in> set DIGITS) \<and> (\<exists>c \<in> set pw. c \<in> set SPECIAL)
       \<and> set pw \<subseteq> set LOWER \<union> set UPPER \<union> set DIGITS \<union> set SPECIAL"
proof -
  from generatePassword_spec [OF assms(2), of len0] obtain l u d s added where
    m: "mset pw = mset ([l, u, d, s] @ added)"
    and c: "l \<in> set LOWER" "u \<in> set UPPER" "d \<in> set DIGITS" "s \<in> set SPECIAL"
    and a: "set added \<subseteq> set all_chars"
    and n: "int (length ([l, u, d, s] @ added)) = max len0 8"
    unfolding pw_def by blast
  from m have len: "length pw = length ([l, u, d, s] @ added)"
    by (rule mset_eq_length)
  from m have set: "set pw = set ([l, u, d, s] @ added)"
    by (rule mset_eq_setD)
  have 1: "int (length pw) = max len0 8"
    using len n by simp
  have 2: "set pw \<subseteq> set LOWER \<union> set UPPER \<union> set DIGITS \<union> set SPECIAL"
    using set c a by (auto simp: all_chars_def)
  have 3: "l \<in> set pw" "u \<in> set pw" "d \<in> set pw" "s \<in> set pw"
    using set by simp_all
  from 1 2 3 c show ?thesis
    by (auto simp del: set_append)
qed


text \<open>
  Rounding on known values: \<^verbatim>\<open>0.1\<close> is \<open>3602879701896397 / 2 ^ 55\<close>, and
  \<^verbatim>\<open>0.1 * 3\<close> is \<^verbatim>\<open>0.30000000000000004\<close>, a tie rounded to the even significand.
  Then the generator on draws that are all \<^verbatim>\<open>0.7\<close>: the rounded product takes the
  digit at index 7, where the exact product \<open>6.99...\<close> would give index 6.
\<close>

lemma example_rounding:
  "to_double (1 / 10) = 3602879701896397 / 36028797018963968
   \<and> times_double (3602879701896397 / 36028797018963968) 3
       = 5404319552844596 / 18014398509481984
   \<and> to_double (7 / 10) = example_draw"
  by code_simp

lemma is_double_example_draw: "is_double example_draw"
  by code_simp

lemma example_draw_unit: "0 \<le> example_draw \<and> example_draw < 1"
  by (simp add: example_draw_def)

lemma example_draws: "unit_draws (\<lambda>n. example_draw)"
  by (simp add: unit_draws_def is_double_example_draw example_draw_unit)

lemma example_indices:
  "Math_floor_times example_draw 10 = 7 \<and> nat \<lfloor>example_draw * 10\<rfloor> = 6
   \<and> Math_floor_times example_draw 70 = 49 \<and> nat \<lfloor>example_draw * 70\<rfloor> = 48"
  by code_simp

lemma example_picks:
  "[pick LOWER example_draw, pick UPPER example_draw, pick DIGITS example_draw,
    pick SPECIAL example_draw] = js ''sS7&''"
  by code_simp

lemma example_pick_all: "[pick all_chars example_draw] = js ''X''"
  by code_simp

lemma rest_constant: "rest (\<lambda>n. c) = (\<lambda>n. c)"
  by (simp add: rest_def)

lemma example_fill_8:
  "fill 8 (js ''sS7&'') (\<lambda>n. example_draw) = (js ''sS7&XXXX'', \<lambda>n. example_draw)"
  using example_pick_all by (simp add: fill.simps [of 8] rest_constant js_def)

lemma example_fill_12:
  "fill 12 (js ''sS7&'') (\<lambda>n. example_draw) = (js ''sS7&XXXXXXXX'', \<lambda>n. example_draw)"
  using example_pick_all by (simp add: fill.simps [of 12] rest_constant js_def)

lemma example_shuffle_8:
  "fst (shuffle 7 (js ''sS7&XXXX'') (\<lambda>n. example_draw)) = js ''sSX7&XXX''"
  by code_simp

lemma example_shuffle_12:
  "fst (shuffle 11 (js ''sS7&XXXXXXXX'') (\<lambda>n. example_draw)) = js ''sSX7&XXXXXXX''"
  by code_simp

lemma length_js: "length (js s) = length s"
  by (simp add: js_def)

lemma example_password: "fst (generatePassword 8 (\<lambda>n. example_draw)) = js ''sSX7&XXX''"
proof -
  have l: "(if (8::int) < 8 then 8 else 8) = (8::int)"
    by simp
  have n: "length (js ''sS7&XXXX'') - 1 = 7"
    by (simp add: js_def)
  show ?thesis
    by (simp only: generatePassword_def Let_def rest_constant example_picks l example_fill_8
        split_conv split_beta fst_conv snd_conv n example_shuffle_8)
qed

lemma example_password_12:
  "fst (generatePassword 12 (\<lambda>n. example_draw)) = js ''sSX7&XXXXXXX''"
proof -
  have l: "(if (12::int) < 8 then 8 else 12) = (12::int)"
    by simp
  have n: "length (js ''sS7&XXXXXXXX'') - 1 = 11"
    by (simp add: js_def)
  show ?thesis
    by (simp only: generatePassword_def Let_def rest_constant example_picks l example_fill_12
        split_conv split_beta fst_conv snd_conv n example_shuffle_12)
qed

theorem generatePassword_length_and_classes_witness:
  "unit_draws (\<lambda>n. example_draw)
   \<and> fst (generatePassword 8 (\<lambda>n. example_draw)) = js ''sSX7&XXX''
   \<and> length (fst (generatePassword 5 (\<lambda>n. example_draw))) = 8
   \<and> length (fst (generatePassword 12 (\<lambda>n. example_draw))) = 12"
  using generatePassword_length_and_classes [OF example_draws, of 5]
    generatePassword_length_and_classes [OF example_draws, of 12]
    example_draws example_password
  by simp

section \<open>UTF-8 decoding after encoding\<close>

lemma mod_offset: "a < m \<Longrightarrow> (k * m + a) mod m = (a::nat)"
  by simp

lemma base64_digits:
  fixes cp :: nat
  defines "d \<equiv> cp mod 64" and "c \<equiv> cp div 64 mod 64" and "b \<equiv> cp div 4096 mod 64"
    and "a \<equiv> cp div 262144"
  shows "cp = a * 262144 + b * 4096 + c * 64 + d" and "b < 64" and "c < 64" and "d < 64"
proof -
  define q1 where "q1 = cp div 64"
  define q2 where "q2 = q1 div 64"
  have q2: "q2 = cp div 4096"
    using div_mult2_eq [of cp 64 64] by (simp add: q2_def q1_def)
  have q3: "q2 div 64 = cp div 262144"
    using div_mult2_eq [of cp 4096 64] by (simp add: q2)
  have e1: "cp = q1 * 64 + d" by (simp add: q1_def d_def)
  have e2: "q1 = q2 * 64 + c" by (simp add: q2_def c_def q1_def)
  have e3: "q2 = a * 64 + b" unfolding a_def b_def q3 [symmetric] q2 [symmetric] by simp
  show "cp = a * 262144 + b * 4096 + c * 64 + d"
    using e1 e2 e3 by simp
  show "b < 64" "c < 64" "d < 64" by (simp_all add: b_def c_def d_def)
qed

lemma unat_byte: "n < 256 \<Longrightarrow> unat (of_nat n :: 8 word) = n"
  by (simp add: unat_of_nat)

lemma decode_1: 
  assumes "cp < 0x80"
  shows "toString_utf8 (utf8_of_code_point cp @ bs) = code_units cp @ toString_utf8 bs"
  using assms by (simp add: utf8_of_code_point_def code_units_def unat_byte)

lemma decode_2: 
  assumes "0x80 \<le> cp" "cp < 0x800"
  shows "toString_utf8 (utf8_of_code_point cp @ bs) = code_units cp @ toString_utf8 bs"
proof -
  define a where "a = cp div 64"
  define b where "b = cp mod 64"
  define x0 :: "8 word" where "x0 = of_nat (0xC0 + a)"
  define x1 :: "8 word" where "x1 = of_nat (0x80 + b)"
  have cp: "cp = a * 64 + b" and b: "b < 64"
    by (simp_all add: a_def b_def)
  have a: "2 \<le> a" "a < 32"
    using assms cp b by linarith+
  have u0: "unat x0 = 0xC0 + a"
    unfolding x0_def using a by (intro unat_byte) simp
  have u1: "unat x1 = 0x80 + b"
    unfolding x1_def using b by (intro unat_byte) simp
  have enc: "utf8_of_code_point cp = [x0, x1]"
    using assms by (simp add: utf8_of_code_point_def a_def b_def x0_def x1_def)
  have m0: "(192 + a) mod 32 = a"
    using mod_offset [of a 32 6] a by simp
  have m1: "(128 + b) mod 64 = b"
    using mod_offset [of b 64 2] b by simp
  have dec: "toString_utf8 ([x0, x1] @ bs) = code_units (a * 64 + b) @ toString_utf8 bs"
    using a b by (simp add: between_def bits6_def u0 u1 m0 m1)
  show ?thesis
    unfolding enc dec cp [symmetric] ..
qed
lemma decode_3: 
  assumes "0x800 \<le> cp" "cp < 0x10000" "\<not> (0xD800 \<le> cp \<and> cp \<le> 0xDFFF)"
  shows "toString_utf8 (utf8_of_code_point cp @ bs) = code_units cp @ toString_utf8 bs"
proof -
  define a where "a = cp div 4096"
  define b where "b = cp div 64 mod 64"
  define c where "c = cp mod 64"
  define x0 :: "8 word" where "x0 = of_nat (0xE0 + a)"
  define x1 :: "8 word" where "x1 = of_nat (0x80 + b)"
  define x2 :: "8 word" where "x2 = of_nat (0x80 + c)"
  have a: "a < 16"
    using assms by (simp add: a_def)
  have z: "cp div 262144 = 0" and am: "cp div 4096 mod 64 = a"
    using assms a by (simp_all add: a_def)
  have cp: "cp = a * 4096 + b * 64 + c" and b: "b < 64" and c: "c < 64"
    using base64_digits [of cp] by (simp_all add: z am b_def c_def)
  have lo: "a = 0 \<Longrightarrow> 32 \<le> b" and hi: "a = 13 \<Longrightarrow> b < 32"
    using assms cp b c by linarith+
  have u0: "unat x0 = 0xE0 + a"
    unfolding x0_def using a by (intro unat_byte) simp
  have u1: "unat x1 = 0x80 + b"
    unfolding x1_def using b by (intro unat_byte) simp
  have u2: "unat x2 = 0x80 + c"
    unfolding x2_def using c by (intro unat_byte) simp
  have enc: "utf8_of_code_point cp = [x0, x1, x2]"
    using assms by (simp add: utf8_of_code_point_def a_def b_def c_def x0_def x1_def x2_def)
  have m0: "(224 + a) mod 16 = a"
    using mod_offset [of a 16 14] a by simp
  have m1: "(128 + b) mod 64 = b"
    using mod_offset [of b 64 2] b by simp
  have m2: "(128 + c) mod 64 = c"
    using mod_offset [of c 64 2] c by simp
  have dec: "toString_utf8 ([x0, x1, x2] @ bs)
      = code_units (a * 4096 + b * 64 + c) @ toString_utf8 bs"
    using a b c lo hi by (auto simp add: between_def bits6_def u0 u1 u2 m0 m1 m2)
  show ?thesis
    unfolding enc dec cp [symmetric] ..
qed

lemma decode_4: 
  assumes "0x10000 \<le> cp" "cp < 0x110000"
  shows "toString_utf8 (utf8_of_code_point cp @ bs) = code_units cp @ toString_utf8 bs"
proof -
  define a where "a = cp div 262144"
  define b where "b = cp div 4096 mod 64"
  define c where "c = cp div 64 mod 64"
  define d where "d = cp mod 64"
  define x0 :: "8 word" where "x0 = of_nat (0xF0 + a)"
  define x1 :: "8 word" where "x1 = of_nat (0x80 + b)"
  define x2 :: "8 word" where "x2 = of_nat (0x80 + c)"
  define x3 :: "8 word" where "x3 = of_nat (0x80 + d)"
  have cp: "cp = a * 262144 + b * 4096 + c * 64 + d"
    and b: "b < 64" and c: "c < 64" and d: "d < 64"
    using base64_digits [of cp] by (simp_all add: a_def b_def c_def d_def)
  have a: "a < 5"
    using assms cp by linarith
  have lo: "a = 0 \<Longrightarrow> 16 \<le> b" and hi: "a = 4 \<Longrightarrow> b < 16"
    using assms cp b c d by linarith+
  have u0: "unat x0 = 0xF0 + a"
    unfolding x0_def using a by (intro unat_byte) simp
  have u1: "unat x1 = 0x80 + b"
    unfolding x1_def using b by (intro unat_byte) simp
  have u2: "unat x2 = 0x80 + c"
    unfolding x2_def using c by (intro unat_byte) simp
  have u3: "unat x3 = 0x80 + d"
    unfolding x3_def using d by (intro unat_byte) simp
  have enc: "utf8_of_code_point cp = [x0, x1, x2, x3]"
    using assms
    by (simp add: utf8_of_code_point_def a_def b_def c_def d_def x0_def x1_def x2_def x3_def)
  have m0: "(240 + a) mod 8 = a"
    using mod_offset [of a 8 30] a by simp
  have m1: "(128 + b) mod 64 = b"
    using mod_offset [of b 64 2] b by simp
  have m2: "(128 + c) mod 64 = c"
    using mod_offset [of c 64 2] c by simp
  have m3: "(128 + d) mod 64 = d"
    using mod_offset [of d 64 2] d by simp
  have dec: "toString_utf8 ([x0, x1, x2, x3] @ bs)
      = code_units (a * 262144 + b * 4096 + c * 64 + d) @ toString_utf8 bs"
    using a b c d lo hi by (auto simp add: between_def bits6_def u0 u1 u2 u3 m0 m1 m2 m3)
  show ?thesis
    unfolding enc dec cp [symmetric] ..
qed

lemma decode_scalar:
  assumes "cp < 0x110000" "\<not> (0xD800 \<le> cp \<and> cp \<le> 0xDFFF)"
  shows "toString_utf8 (utf8_of_code_point cp @ bs) = code_units cp @ toString_utf8 bs"
proof -
  consider "cp < 0x80" | "0x80 \<le> cp" "cp < 0x800" | "0x800 \<le> cp" "cp < 0x10000"
    | "0x10000 \<le> cp"
    by linarith
  then show ?thesis
  proof cases
    case 1 then show ?thesis by (rule decode_1)
  next
    case 2 then show ?thesis by (rule decode_2)
  next
    case 3 then show ?thesis using assms(2) by (rule decode_3)
  next
    case 4 then show ?thesis using assms(1) by (rule decode_4)
  qed
qed

lemma code_units_pair:
  assumes "is_lead_surrogate u" "is_trail_surrogate t"
  shows "code_units (0x10000 + (unat u - 0xD800) * 1024 + (unat t - 0xDC00)) = [u, t]"
proof -
  define h where "h = unat u - 0xD800"
  define l where "l = unat t - 0xDC00"
  have h: "unat u = 0xD800 + h" and l: "unat t = 0xDC00 + l" and lb: "l < 1024"
    using assms unfolding h_def l_def is_lead_surrogate_def is_trail_surrogate_def
    by linarith+
  have "(h * 1024 + l) div 1024 = h" "(h * 1024 + l) mod 1024 = l"
    using lb by simp_all
  then have "code_units (0x10000 + h * 1024 + l) = [of_nat (0xD800 + h), of_nat (0xDC00 + l)]"
    by (simp add: code_units_def add.assoc)
  also have "\<dots> = [u, t]"
    unfolding h [symmetric] l [symmetric] by simp
  finally show ?thesis by (simp add: h_def l_def)
qed

lemma pair_scalar:
  assumes "is_lead_surrogate u" "is_trail_surrogate t"
  shows "0x10000 + (unat u - 0xD800) * 1024 + (unat t - 0xDC00) < 0x110000"
    and "\<not> (0xD800 \<le> 0x10000 + (unat u - 0xD800) * 1024 + (unat t - 0xDC00)
          \<and> 0x10000 + (unat u - 0xD800) * 1024 + (unat t - 0xDC00) \<le> 0xDFFF)"
  using assms unfolding is_lead_surrogate_def is_trail_surrogate_def by linarith+

lemma unit_scalar:
  assumes "\<not> is_lead_surrogate u" "\<not> is_trail_surrogate u"
  shows "unat u < 0x110000" and "\<not> (0xD800 \<le> unat u \<and> unat u \<le> 0xDFFF)"
    and "code_units (unat u) = [u]"
proof -
  have "unat u < 2 ^ LENGTH(16)" by (rule unsigned_less)
  then have lt: "unat u < 0x10000" by simp
  then show "unat u < 0x110000" by simp
  show "\<not> (0xD800 \<le> unat u \<and> unat u \<le> 0xDFFF)"
    using assms by (auto simp: is_lead_surrogate_def is_trail_surrogate_def)
  show "code_units (unat u) = [u]"
    using lt by (simp add: code_units_def)
qed

lemma toString_utf8_Buffer_from_utf8: "well_formed s \<Longrightarrow> toString_utf8 (Buffer_from_utf8 s) = s"
proof (induction s rule: Buffer_from_utf8.induct)
  case 1
  then show ?case by simp
next
  case (2 u us)
  show ?case
  proof (cases "is_lead_surrogate u")
    case True
    with "2.prems" obtain t us' where us: "us = t # us'" and t: "is_trail_surrogate t"
      and wf: "well_formed us'"
      by (auto split: list.splits)
    have "toString_utf8 (Buffer_from_utf8 us') = us'"
      using "2.IH"(1) [OF True us t] wf by simp
    then show ?thesis
      using True t us decode_scalar [OF pair_scalar [OF True t]] code_units_pair [OF True t]
      by simp
  next
    case False
    with "2.prems" have nt: "\<not> is_trail_surrogate u" and wf: "well_formed us"
      by auto
    have "toString_utf8 (Buffer_from_utf8 us) = us"
      using "2.IH"(4) [OF False nt] wf by simp
    then show ?thesis
      using False nt decode_scalar [OF unit_scalar(1,2) [OF False nt]] unit_scalar(3) [OF False nt]
      by simp
  qed
qed


section \<open>Decrypting what was encrypted\<close>

lemma unat_unit: "n < 65536 \<Longrightarrow> unat (of_nat n :: 16 word) = n"
  by (simp add: unat_of_nat)

lemma unat_hex_digit:
  assumes "n < 16"
  shows "unat (hex_digit n) = (if n < 10 then 48 + n else 87 + n)"
proof -
  have "unat (of_nat (48 + n) :: 16 word) = 48 + n" "unat (of_nat (87 + n) :: 16 word) = 87 + n"
    using assms by (simp_all only: unat_unit)
  then show ?thesis
    by (simp only: hex_digit_def if_distrib [of unat] split: if_splits)
qed

lemma unhex_hex_digit: "n < 16 \<Longrightarrow> unhex (hex_digit n) = Some n"
  by (simp add: unhex_def unat_hex_digit Let_def)

lemma hex_digit_not_colon: "n < 16 \<Longrightarrow> hex_digit n \<noteq> colon"
proof
  assume "n < 16" and "hex_digit n = colon"
  then have "unat (hex_digit n) = 58" by (simp add: colon_def)
  with \<open>n < 16\<close> show False by (simp add: unat_hex_digit split: if_splits)
qed

lemma byte_of_digits: "of_nat (unat b div 16 * 16 + unat b mod 16) = (b :: 8 word)"
  by simp

lemma Buffer_from_hex_toString_hex: "Buffer_from_hex (toString_hex bs) = bs"
proof (induction bs)
  case Nil
  then show ?case by (simp add: toString_hex_def)
next
  case (Cons b bs)
  have d: "unat b div 16 < 16" "unat b mod 16 < 16"
    using unsigned_less [of b, where 'a = nat] by (simp_all add: less_mult_imp_div_less)
  have "toString_hex (b # bs)
      = hex_digit (unat b div 16) # hex_digit (unat b mod 16) # toString_hex bs"
    by (simp add: toString_hex_def)
  then show ?case
    using Cons.IH by (simp add: unhex_hex_digit [OF d(1)] unhex_hex_digit [OF d(2)]
        byte_of_digits del: of_nat_add of_nat_mult)
qed

lemma colon_notin_toString_hex: "colon \<notin> set (toString_hex bs)"
proof (induction bs)
  case Nil
  then show ?case by (simp add: toString_hex_def)
next
  case (Cons b bs)
  have d: "unat b div 16 < 16" "unat b mod 16 < 16"
    using unsigned_less [of b, where 'a = nat] by (simp_all add: less_mult_imp_div_less)
  have "toString_hex (b # bs)
      = hex_digit (unat b div 16) # hex_digit (unat b mod 16) # toString_hex bs"
    by (simp add: toString_hex_def)
  then show ?case
    using Cons.IH hex_digit_not_colon [OF d(1)] hex_digit_not_colon [OF d(2)] by auto
qed

lemma split_from_component:
  "colon \<notin> set a \<Longrightarrow> split_from cur (a @ colon # r) = (rev cur @ a) # split_from [] r"
  by (induction a arbitrary: cur) auto

lemma split_from_last: "colon \<notin> set a \<Longrightarrow> split_from cur a = [rev cur @ a]"
  by (induction a arbitrary: cur) auto

lemma split_join3:
  assumes "colon \<notin> set a" "colon \<notin> set b" "colon \<notin> set c"
  shows "split_colon (a @ colon # b @ colon # c) = [a, b, c]"
  using assms
  by (simp add: split_colon_def split_from_component split_from_last)

lemma length_gcm_update: "length (gcm_update G k iv d) = length d"
  by (simp add: gcm_update_def)

lemma nth_gcm_update:
  "i < length d \<Longrightarrow> gcm_update G k iv d ! i = d ! i XOR keystream G k iv i"
  by (simp add: gcm_update_def)

lemma gcm_update_twice: "gcm_update G k iv (gcm_update G k iv d) = d"
  by (rule nth_equalityI) (simp_all add: length_gcm_update nth_gcm_update xor.assoc)

lemma length_be_bytes: "length (be_bytes n w) = n"
  by (induction n) simp_all

lemma length_getAuthTag: "length (getAuthTag G k iv ct) = 16"
  by (simp add: getAuthTag_def length_be_bytes)

lemma decryptText_components:
  assumes "iv \<noteq> []" "valid_tag_length (length tag)"
  shows "decryptText G k (join_colon (map toString_hex [iv, ct, tag]))
       = (if tag = take (length tag) (getAuthTag G k iv ct)
          then Inr (toString_utf8 (gcm_update G k iv ct)) else Inl UnableToAuthenticate)"
  using assms
  by (simp add: decryptText_def split_join3 colon_notin_toString_hex
      Buffer_from_hex_toString_hex dec_final_def)

lemma decryptText_encrypt_with:
  assumes "iv \<noteq> []" "well_formed p"
  shows "decryptText G k (encrypt_with G k iv p) = Inr p"
proof -
  define ct where "ct = gcm_update G k iv (Buffer_from_utf8 p)"
  have e: "encrypt_with G k iv p = join_colon (map toString_hex [iv, ct, getAuthTag G k iv ct])"
    by (simp add: encrypt_with_def ct_def Let_def)
  have v: "valid_tag_length (length (getAuthTag G k iv ct))"
    by (simp add: length_getAuthTag valid_tag_length_def)
  have t: "take (length (getAuthTag G k iv ct)) (getAuthTag G k iv ct) = getAuthTag G k iv ct"
    by simp
  have "decryptText G k (encrypt_with G k iv p) = Inr (toString_utf8 (gcm_update G k iv ct))"
    unfolding e decryptText_components [OF assms(1) v] t by simp
  also have "gcm_update G k iv ct = Buffer_from_utf8 p"
    by (simp add: ct_def gcm_update_twice)
  finally show ?thesis
    by (simp add: toString_utf8_Buffer_from_utf8 [OF assms(2)])
qed

lemma IV_not_Nil: "be_bytes IV_LEN v \<noteq> []"
  using length_be_bytes [of IV_LEN v] by (auto simp: IV_LEN_def)


section \<open>More concrete values\<close>

lemma example_nonce:
  "be_bytes IV_LEN (randomBytes (example_world None) 0) = [1, 2, 3, 4, 5, 6, 7, 8, 9, 10, 11, 12]"
  by (simp add: IV_LEN_def example_world_def be_bytes_numeral)

lemma example_plain: "Buffer_from_utf8 (js ''pw'') = [112, 119]"
  by (simp add: js_def is_lead_surrogate_def is_trail_surrogate_def utf8_of_code_point_def)

lemma example_cipher:
  "gcm_update toy_gcm example_key [1, 2, 3, 4, 5, 6, 7, 8, 9, 10, 11, 12] [112, 119]
     = [0x5b, 0x45]"
  by (simp add: gcm_update_def toy_gcm_def example_key_def upt_rec)

lemma example_hex:
  "toString_hex [1, 2, 3, 4, 5, 6, 7, 8, 9, 10, 11, 12] = js ''0102030405060708090a0b0c''"
  "toString_hex [0x5b, 0x45] = js ''5b45''"
  "toString_hex [0x10, 0x11, 0x12, 0x13, 0x14, 0x15, 0x17, 0x37, 0xbe, 0xe0, 0xc9, 0x31, 0x87,
     0xfa, 0x3c, 0x76] = js ''1011121314151737bee0c93187fa3c76''"
  by (simp_all add: toString_hex_def hex_digit_def js_def)

lemma example_encrypt:
  "fst (encryptText toy_gcm example_key (js ''pw'') (example_world None)) = js example_payload"
  by (simp add: fst_encryptText example_nonce encrypt_with_def example_plain example_cipher
      example_getAuthTag example_hex)
    (simp add: js_def example_payload_def colon_def)


section \<open>The round trip\<close>

text \<open>
  Claim C1, amended. For every plaintext string in which every surrogate code unit is
  half of a pair, every 32-byte key and every nonce that \<^verbatim>\<open>crypto.randomBytes\<close> returns,
  \<^verbatim>\<open>decryptText\<close> of the payload that \<^verbatim>\<open>encryptText\<close> returns is the plaintext. (A string
  with a surrogate that has no partner is not restored: its UTF-8 encoding is that of
  U+FFFD.)
\<close>

theorem decryptText_encryptText:
  assumes "well_formed p"
  shows "decryptText G k (fst (encryptText G k p w)) = Inr p"
  using decryptText_encrypt_with [OF IV_not_Nil assms] by (simp add: fst_encryptText)

theorem decryptText_encryptText_witness:
  "well_formed (js ''pw'')
   \<and> fst (encryptText toy_gcm example_key (js ''pw'') (example_world None)) = js example_payload
   \<and> decryptText toy_gcm example_key
         (fst (encryptText toy_gcm example_key (js ''pw'') (example_world None)))
       = Inr (js ''pw'')"
proof -
  have h: "well_formed (js ''pw'')"
    by (simp add: js_def is_lead_surrogate_def is_trail_surrogate_def)
  show ?thesis
    using h example_encrypt
      decryptText_encryptText [OF h, of toy_gcm example_key "example_world None"]
    by simp
qed

text \<open>
  The string that is the single code unit U+D800 comes back as U+FFFD, whatever the
  cipher, the key and the nonce are.
\<close>

lemma lone_surrogate_replaced:
  "decryptText G k (fst (encryptText G k [0xD800] w)) = Inr [0xFFFD]"
proof -
  have "Buffer_from_utf8 [0xD800] = Buffer_from_utf8 [0xFFFD]"
    by (simp add: is_lead_surrogate_def is_trail_surrogate_def)
  then have "encrypt_with G k (be_bytes IV_LEN (randomBytes w 0)) [0xD800]
      = encrypt_with G k (be_bytes IV_LEN (randomBytes w 0)) [0xFFFD]"
    by (simp add: encrypt_with_def)
  moreover have "well_formed [0xFFFD]"
    by (simp add: is_lead_surrogate_def is_trail_surrogate_def)
  ultimately show ?thesis
    using decryptText_encrypt_with
      [where iv = "be_bytes IV_LEN (randomBytes w 0)" and p = "[0xFFFD]" and G = G and k = k]
    by (simp add: fst_encryptText IV_not_Nil)
qed

theorem lone_surrogate_not_restored:
  "decryptText toy_gcm example_key
     (fst (encryptText toy_gcm example_key [0xD800] (example_world None))) = Inr [0xFFFD]
   \<and> decryptText toy_gcm example_key
     (fst (encryptText toy_gcm example_key [0xD800] (example_world None))) \<noteq> Inr [0xD800]"
  using lone_surrogate_replaced [of toy_gcm example_key "example_world None"] by simp

section \<open>What decryptText reads from a payload\<close>

text \<open>
  \<^verbatim>\<open>decryptText\<close> reads the three components only through \<^verbatim>\<open>Buffer.from(..., 'hex')\<close>:
  payloads whose components decode to the same bytes decrypt alike.
\<close>

lemma decryptText_hex_decoding:
  assumes "colon \<notin> set ivHex" "colon \<notin> set ctHex" "colon \<notin> set tagHex" "colon \<notin> set tagHex'"
    and "Buffer_from_hex tagHex' = Buffer_from_hex tagHex"
  shows "decryptText G k (ivHex @ colon # ctHex @ colon # tagHex')
       = decryptText G k (ivHex @ colon # ctHex @ colon # tagHex)"
  using assms by (simp add: decryptText_def split_join3)

text \<open>With fewer than three components the call throws a \<^verbatim>\<open>TypeError\<close>.\<close>

lemma decryptText_TypeError:
  "length (split_colon payload) < 3 \<Longrightarrow> decryptText G k payload = Inl TypeError"
  by (auto simp: decryptText_def split: list.splits)

text \<open>
  A string is returned only when the decoded tag is the tag, or its leading bytes, that
  the cipher computes for the decoded nonce and ciphertext; the string is then the
  decoding of the decrypted bytes.
\<close>

lemma decryptText_Inr:
  assumes "decryptText G k payload = Inr p"
  shows "\<exists>ivHex ctHex tagHex more.
           split_colon payload = ivHex # ctHex # tagHex # more
         \<and> Buffer_from_hex ivHex \<noteq> []
         \<and> Buffer_from_hex tagHex
             = take (length (Buffer_from_hex tagHex))
                 (getAuthTag G k (Buffer_from_hex ivHex) (Buffer_from_hex ctHex))
         \<and> p = toString_utf8 (gcm_update G k (Buffer_from_hex ivHex) (Buffer_from_hex ctHex))"
  using assms
  by (auto simp: decryptText_def dec_final_def Let_def split: list.splits if_splits)

text \<open>
  The stored payload in which one character of the tag component is changed from \<^verbatim>\<open>b\<close>
  to \<^verbatim>\<open>B\<close>: the components still decode to the same bytes, and \<^verbatim>\<open>decryptText\<close> returns
  the plaintext.
\<close>

lemma tampered_parts:
  "split_colon ((js example_payload)[46 := 0x42])
     = [js ''0102030405060708090a0b0c'', js ''5b45'', js ''1011121314151737Bee0c93187fa3c76'']"
  by code_simp

lemma tampered_tag:
  "Buffer_from_hex (js ''1011121314151737Bee0c93187fa3c76'')
     = [0x10, 0x11, 0x12, 0x13, 0x14, 0x15, 0x17, 0x37, 0xbe, 0xe0, 0xc9, 0x31, 0x87, 0xfa,
        0x3c, 0x76]"
  by (simp add: js_def unhex_def)

lemma tampered_decrypts:
  "decryptText toy_gcm example_key ((js example_payload)[46 := 0x42]) = Inr (js ''pw'')"
  by (simp add: decryptText_def tampered_parts example_iv example_ct tampered_tag
      example_update example_getAuthTag dec_final_def valid_tag_length_def)
    (simp add: js_def)

text \<open>
  The stored payload with the first digit of the tag component replaced by the code
  unit U+0131, whose low byte is that of the digit: the components decode to the same
  bytes.
\<close>

lemma low_byte_parts:
  "split_colon ((js example_payload)[30 := 0x0131])
     = [js ''0102030405060708090a0b0c'', js ''5b45'',
        0x0131 # js ''011121314151737bee0c93187fa3c76'']"
  by code_simp

lemma low_byte_tag:
  "Buffer_from_hex (0x0131 # js ''011121314151737bee0c93187fa3c76'')
     = [0x10, 0x11, 0x12, 0x13, 0x14, 0x15, 0x17, 0x37, 0xbe, 0xe0, 0xc9, 0x31, 0x87, 0xfa,
        0x3c, 0x76]"
  by (simp add: js_def unhex_def)

lemma low_byte_decrypts:
  "decryptText toy_gcm example_key ((js example_payload)[30 := 0x0131]) = Inr (js ''pw'')"
  by (simp add: decryptText_def low_byte_parts example_iv example_ct low_byte_tag
      example_update example_getAuthTag dec_final_def valid_tag_length_def)
    (simp add: js_def)

section \<open>The deprecation fields stay consistent\<close>

lemma list_all_update:
  "list_all P xs \<Longrightarrow> P x \<Longrightarrow> list_all P (xs[i := x])"
  by (auto simp: list_all_iff dest: set_update_subset_insert [THEN subsetD])

lemma consistent_generateFlow:
  assumes "list_all (\<lambda>e. (deprecatedAt e \<noteq> None) = deprecated e) (stored w)"
  shows "list_all (\<lambda>e. (deprecatedAt e \<noteq> None) = deprecated e)
           (stored (generateFlow G k answer w))"
proof -
  from stored_generateFlow [of G k answer w] obtain e where
    "stored (generateFlow G k answer w) = stored w @ [e]" "\<not> deprecated e"
    "deprecatedAt e = None"
    by blast
  with assms show ?thesis by simp
qed

lemma consistent_deleteFlow:
  assumes "list_all (\<lambda>e. (deprecatedAt e \<noteq> None) = deprecated e) (stored w)"
  shows "list_all (\<lambda>e. (deprecatedAt e \<noteq> None) = deprecated e)
           (stored (deleteFlow sel confirm w))"
  using assms by (simp add: stored_deleteFlow list_all_iff)

lemma consistent_getFlow:
  assumes "list_all (\<lambda>e. (deprecatedAt e \<noteq> None) = deprecated e) (stored w)"
  shows "list_all (\<lambda>e. (deprecatedAt e \<noteq> None) = deprecated e)
           (stored (world_of (getFlow G k ans w)))"
proof -
  consider
    (same) "stored (world_of (getFlow G k ans w)) = stored w"
  | (replace) x e where
      "stored (world_of (getFlow G k ans w)) = filter (\<lambda>y. entry_id y \<noteq> x) (stored w) @ [e]"
      "\<not> deprecated e" "deprecatedAt e = None"
  | (rotate) i now e where
      "stored (world_of (getFlow G k ans w))
         = (stored w)[i := deprecateEntry (stored w ! i) now] @ [e]"
      "\<not> deprecated e" "deprecatedAt e = None"
    using stored_getFlow [of G k ans w] by blast
  then show ?thesis
  proof cases
    case same
    with assms show ?thesis by simp
  next
    case replace
    with assms show ?thesis by (simp add: list_all_iff)
  next
    case rotate
    have "list_all (\<lambda>e. (deprecatedAt e \<noteq> None) = deprecated e)
        ((stored w)[i := deprecateEntry (stored w ! i) now])"
      using assms by (rule list_all_update) (simp add: deprecateEntry_def)
    with rotate show ?thesis by simp
  qed
qed

lemma world_of_mainMenu_Get:
  "world_of (mainMenu G k [Get ans] w) = world_of (getFlow G k ans w)"
  by (cases "getFlow G k ans w") simp_all

lemma consistent_mainMenu:
  assumes "list_all (\<lambda>e. (deprecatedAt e \<noteq> None) = deprecated e) (stored w)"
  shows "list_all (\<lambda>e. (deprecatedAt e \<noteq> None) = deprecated e)
           (stored (world_of (mainMenu G k as w)))"
  using assms
proof (induction G k as w rule: mainMenu.induct)
  case (1 G k w)
  then show ?case by simp
next
  case (2 G k answer as w)
  from "2.IH" [OF consistent_generateFlow [OF "2.prems"]] show ?case by simp
next
  case (3 G k ans as w)
  note c = consistent_getFlow [OF "3.prems", of G k ans]
  show ?case
  proof (cases "getFlow G k ans w")
    case (Returned w')
    with c "3.IH" [OF Returned] show ?thesis by simp
  next
    case (Exited code w')
    with c show ?thesis by simp
  next
    case (Threw err w')
    with c show ?thesis by simp
  qed
next
  case (4 G k sel confirm as w)
  from "4.IH" [OF consistent_deleteFlow [OF "4.prems"]] show ?case by simp
next
  case (5 G k as w)
  then show ?case by simp
qed

text \<open>
  Claim C7. In every store that a session reaches from the empty store through any
  sequence of the menu's flows (generate, get with its branches back, replace, rotate,
  show deprecated and exit, and delete), every entry has \<open>deprecatedAt\<close> exactly when
  \<open>deprecated\<close> is true.
\<close>

theorem deprecatedAt_iff_deprecated:
  assumes "stored w = []"
  shows "list_all (\<lambda>e. (deprecatedAt e \<noteq> None) = deprecated e)
           (stored (world_of (mainMenu G k as w)))"
  using assms by (intro consistent_mainMenu) simp

theorem deprecatedAt_iff_deprecated_witness:
  "stored (example_world None) = []
   \<and> map deprecated (stored (world_of (mainMenu toy_gcm example_key
         [Gen (js ''example.com'')] (example_world None)))) = [False]
   \<and> list_all (\<lambda>e. (deprecatedAt e \<noteq> None) = deprecated e)
        (stored (world_of (mainMenu toy_gcm example_key
           [Gen (js ''example.com''), Get (example_answers ''uuid-a'' ErrBack Regen []),
            Delete (js ''other.org'') True, Quit] (example_world None))))"
proof -
  have h: "stored (example_world None) = []"
    by (simp add: stored_def example_world_def)
  from stored_generateFlow [of toy_gcm example_key "js ''example.com''" "example_world None"]
  have g: "map deprecated (stored (world_of (mainMenu toy_gcm example_key
         [Gen (js ''example.com'')] (example_world None)))) = [False]"
    using h by auto
  show ?thesis
    using h g deprecatedAt_iff_deprecated [OF h, of toy_gcm example_key
        "[Gen (js ''example.com''), Get (example_answers ''uuid-a'' ErrBack Regen []),
          Delete (js ''other.org'') True, Quit]"]
    by simp
qed

section \<open>Rotate deprecates the entry and appends a new one\<close>

lemma well_formed_below_surrogates:
  "(\<forall>c \<in> set s. unat c < 0xD800) \<Longrightarrow> well_formed s"
  by (induction s) (auto simp: is_lead_surrogate_def is_trail_surrogate_def)

lemma all_chars_ascii: "\<forall>c \<in> set all_chars. unat c < 128"
  by (simp add: all_chars_def LOWER_def UPPER_def DIGITS_def SPECIAL_def js_def)

lemma well_formed_generatePassword:
  assumes "unit_draws src"
  shows "well_formed (fst (generatePassword n src))"
proof -
  from generatePassword_spec [OF assms, of n] obtain l u d s added where
    m: "mset (fst (generatePassword n src)) = mset ([l, u, d, s] @ added)"
    and c: "l \<in> set LOWER" "u \<in> set UPPER" "d \<in> set DIGITS" "s \<in> set SPECIAL"
    and a: "set added \<subseteq> set all_chars"
    by blast
  from m have "set (fst (generatePassword n src)) = set ([l, u, d, s] @ added)"
    by (rule mset_eq_setD)
  with c a have "set (fst (generatePassword n src)) \<subseteq> set all_chars"
    by (auto simp: all_chars_def)
  with all_chars_ascii have "\<forall>c \<in> set (fst (generatePassword n src)). unat c < 0xD800"
    by fastforce
  then show ?thesis by (rule well_formed_below_surrogates)
qed

lemma only_rotate_deprecates:
  assumes "e \<in> set (stored (world_of (mainMenu G k [a] w)))" "deprecated e"
    "e \<notin> set (stored w)"
  shows "\<exists>ans. a = Get ans \<and> next_step ans = Regen"
proof (cases a)
  case (Gen answer)
  from stored_generateFlow [of G k answer w] obtain e' where
    "stored (generateFlow G k answer w) = stored w @ [e']" "\<not> deprecated e'"
    by blast
  with assms Gen show ?thesis by auto
next
  case (Get ans)
  have e: "e \<in> set (stored (world_of (getFlow G k ans w)))"
    using assms(1) Get by (simp only: world_of_mainMenu_Get)
  consider
    (same) "stored (world_of (getFlow G k ans w)) = stored w"
  | (replace) x e' where
      "stored (world_of (getFlow G k ans w)) = filter (\<lambda>y. entry_id y \<noteq> x) (stored w) @ [e']"
      "\<not> deprecated e'"
  | (rotate) "next_step ans = Regen"
    using stored_getFlow [of G k ans w] by blast
  then show ?thesis
  proof cases
    case same
    with e assms(3) show ?thesis by simp
  next
    case replace
    with e assms(2,3) show ?thesis by auto
  next
    case rotate
    with Get show ?thesis by simp
  qed
next
  case (Delete sel confirm)
  with assms show ?thesis
    by (auto simp: stored_deleteFlow split: if_splits)
next
  case Quit
  with assms show ?thesis by simp
qed

lemma filter_update_Nil:
  assumes "i < length es" "filter P es = [es ! i]" "\<not> P d"
  shows "filter P (es[i := d]) = []"
proof -
  have "es ! i \<in> set (filter P es)"
    unfolding assms(2) by simp
  then have p: "P (es ! i)" by simp
  have "es = take i es @ es ! i # drop (Suc i) es"
    using assms(1) by (rule id_take_nth_drop)
  then have "filter P es = filter P (take i es) @ es ! i # filter P (drop (Suc i) es)"
    using p by (metis filter.simps(2) filter_append)
  with assms(2) have "filter P (take i es) = []" "filter P (drop (Suc i) es) = []"
    by (simp_all add: append_eq_Cons_conv)
  then show ?thesis
    using assms(1,3) by (simp add: upd_conv_take_nth_drop)
qed

text \<open>
  Claim C5, amended. In a store that holds exactly one entry of a name that is not
  deprecated, Rotate on that entry (it is the entry that \<^verbatim>\<open>find\<close> returns for the
  selected id, and its secret decrypts) saves a store in which the original entry is
  deprecated with \<open>deprecatedAt\<close> set, at its position and with its name and id, and
  one new entry has been appended: not deprecated, of the same name, with the id that
  \<^verbatim>\<open>crypto.randomUUID()\<close> returned and a secret that is the encryption of a newly
  generated password. It is then the only entry of the name that is not deprecated.
  The two entries have different ids exactly when \<^verbatim>\<open>crypto.randomUUID()\<close> returned a
  value other than the id of the original, and the ids of the saved store are unique
  exactly when those of the loaded store were and the returned value is not among
  them. No other step of the menu adds a deprecated entry to the store: a step after
  which the store holds a deprecated entry it did not hold before is \<^verbatim>\<open>getFlow\<close> with
  the answer \<^verbatim>\<open>regen\<close>.
\<close>

theorem rotate_deprecates_and_appends:
  fixes G k ans w
  defines "after \<equiv> stored (world_of (getFlow G k ans w))"
  assumes "store_file w = Some es"
    and "find_ref (\<lambda>e. entry_id e = selected ans) es = Some i"
    and "filter (\<lambda>e. name e = name (es ! i) \<and> \<not> deprecated e) es = [es ! i]"
    and "decryptText G k (secret (es ! i)) = Inr pwd"
    and "next_step ans = Regen"
    and "unit_draws (mathRandom w)"
  shows "(\<exists>w'. getFlow G k ans w = Returned w')
       \<and> length after = Suc (length es)
       \<and> butlast after
           = es[i := (es ! i)\<lparr>deprecated := True, deprecatedAt := Some (clock w 0)\<rparr>]
       \<and> deprecated (after ! i) \<and> deprecatedAt (after ! i) = Some (clock w 0)
       \<and> name (after ! i) = name (es ! i) \<and> entry_id (after ! i) = entry_id (es ! i)
       \<and> \<not> deprecated (last after) \<and> deprecatedAt (last after) = None
       \<and> name (last after) = name (es ! i)
       \<and> entry_id (last after) = randomUUID w 0
       \<and> (entry_id (last after) = entry_id (after ! i)) = (randomUUID w 0 = entry_id (es ! i))
       \<and> secret (last after)
           = fst (encryptText G k (fst (generatePassword 12 (mathRandom w))) w)
       \<and> decryptText G k (secret (last after)) = Inr (fst (generatePassword 12 (mathRandom w)))
       \<and> filter (\<lambda>e. name e = name (es ! i) \<and> \<not> deprecated e) after = [last after]
       \<and> distinct (map entry_id after)
           = (distinct (map entry_id es) \<and> randomUUID w 0 \<notin> set (map entry_id es))
       \<and> (\<forall>a w0 e. e \<in> set (stored (world_of (mainMenu G k [a] w0))) \<and> deprecated e
              \<and> e \<notin> set (stored w0) \<longrightarrow> (\<exists>ans'. a = Get ans' \<and> next_step ans' = Regen))"
proof -
  define d where "d = (es ! i)\<lparr>deprecated := True, deprecatedAt := Some (clock w 0)\<rparr>"
  from find_ref_Some [OF assms(3)] have i: "i < length es"
    by simp
  have mem: "es ! i \<in> set (filter (\<lambda>e. name e = name (es ! i) \<and> \<not> deprecated e) es)"
    unfolding assms(4) by simp
  then have active: "\<not> deprecated (es ! i)" by simp
  with i have ne: "filter (\<lambda>e. \<not> deprecated e) es \<noteq> []"
    by (auto simp: filter_empty_conv)
  from rotate_frame [OF assms(2) ne assms(3,5,6)] obtain e where
    r: "getFlow G k ans w
          = Returned (getFlow_rotate G k i es (console_log (PasswordFor (name (es ! i)) pwd) w))"
    and a: "after = es[i := d] @ [e]"
    and e: "entry_id e = randomUUID w 0" "name e = name (es ! i)"
      "secret e = fst (encryptText G k (fst (generatePassword 12 (mathRandom w))) w)"
      "\<not> deprecated e" "deprecatedAt e = None"
    unfolding after_def d_def by blast
  have dec: "decryptText G k (secret e) = Inr (fst (generatePassword 12 (mathRandom w)))"
    unfolding e(3) fst_encryptText
    using IV_not_Nil well_formed_generatePassword [OF assms(7)]
    by (rule decryptText_encrypt_with)
  have fil: "filter (\<lambda>x. name x = name (es ! i) \<and> \<not> deprecated x) (es[i := d]) = []"
    using i assms(4) by (rule filter_update_Nil) (simp add: d_def)
  have ids: "map entry_id (es[i := d]) = map entry_id es"
    using i by (simp add: map_update d_def list_update_same_conv)
  have b: "\<forall>a w0 e. e \<in> set (stored (world_of (mainMenu G k [a] w0))) \<and> deprecated e
              \<and> e \<notin> set (stored w0) \<longrightarrow> (\<exists>ans'. a = Get ans' \<and> next_step ans' = Regen)"
    using only_rotate_deprecates by blast
  have 1: "\<exists>w'. getFlow G k ans w = Returned w'"
    using r by blast
  have 2: "length after = Suc (length es)" "butlast after = es[i := d]" "last after = e"
    by (simp_all add: a)
  have 3: "after ! i = d"
    using i by (simp add: a nth_append)
  have 4: "filter (\<lambda>x. name x = name (es ! i) \<and> \<not> deprecated x) after = [last after]"
    by (simp add: a fil e)
  have 5: "distinct (map entry_id after)
      = (distinct (map entry_id es) \<and> randomUUID w 0 \<notin> set (map entry_id es))"
    by (simp add: a ids e del: set_map)
  from 1 2 3 4 5 b e dec show ?thesis
    unfolding d_def [symmetric] by (simp add: d_def)
qed

theorem rotate_deprecates_and_appends_witness:
  "store_file (example_world (Some example_store)) = Some example_store
   \<and> find_ref (\<lambda>e. entry_id e = selected (example_answers ''id1'' ErrBack Regen []))
         example_store = Some 0
   \<and> filter (\<lambda>e. name e = name (example_store ! 0) \<and> \<not> deprecated e) example_store
       = [example_store ! 0]
   \<and> decryptText toy_gcm example_key (secret (example_store ! 0)) = Inr (js ''pw'')
   \<and> unit_draws (mathRandom (example_world (Some example_store)))
   \<and> length example_rotated = 3
   \<and> deprecated (example_rotated ! 0)
   \<and> \<not> deprecated (last example_rotated)
   \<and> name (last example_rotated) = js ''example.com''
   \<and> entry_id (last example_rotated) = js ''uuid-a''
   \<and> entry_id (last example_rotated) \<noteq> entry_id (example_rotated ! 0)
   \<and> distinct (map entry_id example_rotated)"
proof -
  have h1: "store_file (example_world (Some example_store)) = Some example_store"
    by (simp add: example_world_def)
  have h2: "find_ref (\<lambda>e. entry_id e = selected (example_answers ''id1'' ErrBack Regen []))
      example_store = Some 0"
    by (simp add: example_answers_def example_store_def example_entry_def)
  have h3: "filter (\<lambda>e. name e = name (example_store ! 0) \<and> \<not> deprecated e) example_store
      = [example_store ! 0]"
    by (simp add: example_store_def example_entry_def js_def)
  have h4: "decryptText toy_gcm example_key (secret (example_store ! 0)) = Inr (js ''pw'')"
    by (simp add: example_store_def example_entry_def decryptText_example)
  have h5: "next_step (example_answers ''id1'' ErrBack Regen []) = Regen"
    by (simp add: example_answers_def)
  have h6: "unit_draws (mathRandom (example_world (Some example_store)))"
    by (simp add: example_world_def example_draws)
  have u: "randomUUID (example_world (Some example_store)) 0 = js ''uuid-a''"
    by (simp add: example_world_def js_def)
  have n: "name (example_store ! 0) = js ''example.com''"
      "entry_id (example_store ! 0) = js ''id1''"
      "map entry_id example_store = [js ''id1'', js ''id2'']"
    by (simp_all add: example_store_def example_entry_def)
  have l: "length example_store = 2"
    by (simp add: example_store_def)
  have j: "js ''uuid-a'' \<noteq> js ''id1''" "js ''uuid-a'' \<noteq> js ''id2''" "js ''id1'' \<noteq> js ''id2''"
    by (simp_all add: js_def)
  show ?thesis
    using h1 h2 h3 h4 h6 u n l j
      rotate_deprecates_and_appends [OF h1 h2 h3 h4 h5 h6]
    unfolding example_rotated_def [symmetric]
    by simp
qed

text \<open>
  Where \<^verbatim>\<open>crypto.randomUUID()\<close> returns the same value twice: \<^verbatim>\<open>generateFlow\<close> from no
  file writes one entry, and Rotate on it saves the original and the new entry with
  the same id. Nothing in the flows compares the new id with the ids of the store.
\<close>

lemma generateFlow_world:
  "store_file (generateFlow G k answer w) =
     Some (stored w @
       [\<lparr>entry_id = randomUUID w 0, name = trim answer,
         secret = fst (encryptText G k (fst (generatePassword 12 (mathRandom w))) w),
         createdAt = clock w 0, deprecated = False, deprecatedAt = None\<rparr>])"
  "randomUUID (generateFlow G k answer w) = rest (randomUUID w)"
  "clock (generateFlow G k answer w) = rest (clock w)"
  by (simp_all add: generateFlow_def flow_steps loadStore_sources fst_loadStore)

lemma generate_then_rotate:
  assumes "unit_draws (mathRandom w)"
    and "stored w = []"
    and "selected ans = randomUUID w 0"
    and "next_step ans = Regen"
  shows "\<exists>e0 e1.
           stored (generateFlow G k answer w) = [e0]
         \<and> stored (world_of (getFlow G k ans (generateFlow G k answer w)))
             = [e0\<lparr>deprecated := True, deprecatedAt := Some (clock w 1)\<rparr>, e1]
         \<and> entry_id e0 = randomUUID w 0 \<and> name e0 = trim answer \<and> \<not> deprecated e0
         \<and> entry_id e1 = randomUUID w 1 \<and> name e1 = trim answer \<and> \<not> deprecated e1"
proof -
  define pw where "pw = fst (generatePassword 12 (mathRandom w))"
  define e0 where "e0 =
    \<lparr>entry_id = randomUUID w 0, name = trim answer,
      secret = fst (encryptText G k pw w),
      createdAt = clock w 0, deprecated = False, deprecatedAt = None\<rparr>"
  define w1 where "w1 = generateFlow G k answer w"
  have s: "store_file w1 = Some [e0]"
    using assms(2) by (simp add: w1_def generateFlow_world e0_def pw_def)
  have a: "filter (\<lambda>e. \<not> deprecated e) [e0] \<noteq> []"
    by (simp add: e0_def)
  have f: "find_ref (\<lambda>e. entry_id e = selected ans) [e0] = Some 0"
    using assms(3) by (simp add: e0_def)
  have "well_formed pw"
    unfolding pw_def using assms(1) by (rule well_formed_generatePassword)
  with IV_not_Nil have "decryptText G k (encrypt_with G k (be_bytes IV_LEN (randomBytes w 0)) pw)
      = Inr pw"
    by (rule decryptText_encrypt_with)
  then have d: "decryptText G k (secret ([e0] ! 0)) = Inr pw"
    by (simp add: e0_def fst_encryptText)
  from rotate_frame [OF s a f d assms(4)] obtain e1 where
    r: "stored (world_of (getFlow G k ans w1))
          = [e0][0 := ([e0] ! 0)\<lparr>deprecated := True, deprecatedAt := Some (clock w1 0)\<rparr>] @ [e1]"
    and e: "entry_id e1 = randomUUID w1 0" "name e1 = name ([e0] ! 0)" "\<not> deprecated e1"
    by blast
  have c: "clock w1 0 = clock w 1" "randomUUID w1 0 = randomUUID w 1"
    by (simp_all add: w1_def generateFlow_world rest_def)
  have "stored w1 = [e0]"
    using s by (simp add: stored_def)
  with r e c show ?thesis
    unfolding w1_def [symmetric]
    by (intro exI [of _ e0] exI [of _ e1]) (simp add: e0_def)
qed

lemma trim_example: "trim (js ''example.com'') = js ''example.com''"
  by code_simp

theorem rotate_repeated_uuid_same_id:
  "map name repeated_uuid_before = [js ''example.com'']
   \<and> map deprecated repeated_uuid_before = [False]
   \<and> map entry_id repeated_uuid_before = [repeated_uuid]
   \<and> map name repeated_uuid_after = [js ''example.com'', js ''example.com'']
   \<and> map deprecated repeated_uuid_after = [True, False]
   \<and> map entry_id repeated_uuid_after = [repeated_uuid, repeated_uuid]"
proof -
  have u: "unit_draws (mathRandom repeated_uuid_world)"
    by (simp add: repeated_uuid_world_def example_world_def example_draws)
  have s: "stored repeated_uuid_world = []"
    by (simp add: repeated_uuid_world_def example_world_def stored_def)
  have r: "randomUUID repeated_uuid_world n = repeated_uuid" for n
    by (simp add: repeated_uuid_world_def)
  from generate_then_rotate [where G = toy_gcm and k = example_key
      and answer = "js ''example.com''" and w = repeated_uuid_world
      and ans = "\<lparr>selected = repeated_uuid, onError = ErrBack, next_step = Regen,
        selected_old = []\<rparr>", OF u s]
  obtain e0 e1 where
    b: "repeated_uuid_before = [e0]"
    and a: "repeated_uuid_after
          = [e0\<lparr>deprecated := True, deprecatedAt := Some (clock repeated_uuid_world 1)\<rparr>, e1]"
    and e: "entry_id e0 = repeated_uuid" "name e0 = js ''example.com''" "\<not> deprecated e0"
      "entry_id e1 = repeated_uuid" "name e1 = js ''example.com''" "\<not> deprecated e1"
    unfolding repeated_uuid_before_def [symmetric] repeated_uuid_after_def [symmetric]
    by (auto simp: r trim_example)
  show ?thesis
    unfolding a b using e by simp
qed

section \<open>Where the generator takes its randomness\<close>

lemma snd_fill: "snd (fill len pw src) = (\<lambda>i. src (i + nat (len - int (length pw))))"
proof (induction len pw src rule: fill.induct)
  case (1 len pw src)
  show ?case
  proof (cases "int (length pw) < len")
    case True
    then have m: "nat (len - int (length pw)) = Suc (nat (len - (1 + int (length pw))))"
      by simp
    from "1.IH" [OF True] True show ?thesis
      by (simp add: fill.simps [of len pw src] rest_def m)
  next
    case False
    then show ?thesis
      by (simp add: fill.simps [of len pw src])
  qed
qed

lemma length_fill: "int (length (fst (fill len pw src))) = max (int (length pw)) len"
proof (induction len pw src rule: fill.induct)
  case (1 len pw src)
  show ?case
  proof (cases "int (length pw) < len")
    case True
    with "1.IH" [OF True] show ?thesis
      by (simp add: fill.simps [of len pw src])
  next
    case False
    then show ?thesis
      by (simp add: fill.simps [of len pw src])
  qed
qed

lemma snd_shuffle: "snd (shuffle i pw src) = (\<lambda>n. src (n + i))"
  by (induction i arbitrary: pw src) (simp_all add: Let_def rest_def)

lemma length_fill_12: "length pw = 4 \<Longrightarrow> length (fst (fill 12 pw src)) = 12"
  using length_fill [of 12 pw src] by simp

lemma snd_generatePassword_12: "snd (generatePassword 12 src) = (\<lambda>i. src (i + 23))"
  by (simp add: generatePassword_def Let_def split_beta snd_shuffle snd_fill length_fill_12
      rest_def add.commute)

text \<open>
  Claim C3 does not hold of the code. \<^verbatim>\<open>generatePassword(12)\<close>, as every flow calls
  it, takes all its 23 random values (4 picks, 8 fills, 11 swaps) from \<^verbatim>\<open>Math.random()\<close>:
  the password is a function of those values alone, and the values that
  \<^verbatim>\<open>crypto.randomBytes\<close> and \<^verbatim>\<open>crypto.randomUUID\<close> will return are neither read nor
  used up.
\<close>

theorem generatePassword_draws_Math_random:
  "fst (draw_password 12 w) = fst (generatePassword 12 (mathRandom w))
   \<and> fst (draw_password 12 (w\<lparr>randomBytes := rb, randomUUID := ru\<rparr>)) = fst (draw_password 12 w)
   \<and> randomBytes (snd (draw_password 12 w)) = randomBytes w
   \<and> randomUUID (snd (draw_password 12 w)) = randomUUID w
   \<and> mathRandom (snd (draw_password 12 w)) = (\<lambda>i. mathRandom w (i + 23))"
  by (simp add: fst_draw_password snd_draw_password snd_generatePassword_12)

section \<open>A secret that does not decrypt\<close>

text \<open>
  In \<^verbatim>\<open>getFlow\<close> the failure is caught: the flow prints "Decryption failed", asks, and
  returns to the menu after either answer.
\<close>

lemma getFlow_catches:
  assumes "store_file w = Some es"
    and "filter (\<lambda>e. \<not> deprecated e) es \<noteq> []"
    and "find_ref (\<lambda>e. entry_id e = selected ans) es = Some i"
    and "decryptText G k (secret (es ! i)) = Inl err"
  shows "\<exists>w'. getFlow G k ans w = Returned w' \<and> DecryptionFailed \<in> set (console w')"
  using assms
  by (cases "onError ans")
    (simp_all add: getFlow_def loadStore_def getFlow_replace_def flow_steps)

text \<open>
  \<^verbatim>\<open>showDeprecated\<close> has no \<^verbatim>\<open>try\<close>: the exception of \<^verbatim>\<open>decryptText\<close> leaves the flow, and
  \<^verbatim>\<open>getFlow\<close> and \<^verbatim>\<open>mainMenu\<close>, which await it, with it.
\<close>

lemma showDeprecated_throws:
  assumes "store_file w = Some es"
    and "filter deprecated es \<noteq> []"
    and "find_ref (\<lambda>e. entry_id e = sel) es = Some i"
    and "decryptText G k (secret (es ! i)) = Inl err"
  shows "showDeprecated G k sel w = Threw err w"
  using assms by (simp add: showDeprecated_def loadStore_def)

lemma getFlow_ShowOld:
  assumes "store_file w = Some es"
    and "filter (\<lambda>e. \<not> deprecated e) es \<noteq> []"
    and "find_ref (\<lambda>e. entry_id e = selected ans) es = Some i"
    and "decryptText G k (secret (es ! i)) = Inr pwd"
    and "next_step ans = ShowOld"
  shows "getFlow G k ans w
       = showDeprecated G k (selected_old ans) (console_log (PasswordFor (name (es ! i)) pwd) w)"
  using assms by (simp add: getFlow_def loadStore_def)

lemma decryptText_corrupted: "decryptText G k (js ''corrupted'') = Inl TypeError"
  by (rule decryptText_TypeError) (simp add: split_colon_def js_def colon_def)

text \<open>
  Claim C6 does not hold of the code. The store holds a deprecated entry \<^verbatim>\<open>id3\<close> and an
  active entry \<^verbatim>\<open>id4\<close> whose secrets do not decrypt. Get on the healthy entry \<^verbatim>\<open>id1\<close>,
  then "Show deprecated" and the choice of \<^verbatim>\<open>id3\<close>, ends the session with the
  \<^verbatim>\<open>TypeError\<close> of \<^verbatim>\<open>decryptText\<close>: the Generate that the user would choose next does
  not run. Get on \<^verbatim>\<open>id4\<close> returns to the menu.
\<close>

theorem corrupted_deprecated_entry_ends_session:
  "thrown (mainMenu toy_gcm example_key
      [Get (example_answers ''id1'' ErrBack ShowOld ''id3''), Gen (js ''later.com'')]
      (example_world (Some corrupted_store))) = Some TypeError
   \<and> thrown (mainMenu toy_gcm example_key
      [Get (example_answers ''id4'' ErrBack Back [])]
      (example_world (Some corrupted_store))) = None"
proof -
  let ?w = "example_world (Some corrupted_store)"
  have s: "store_file ?w = Some corrupted_store"
    by (simp add: example_world_def)
  have a: "filter (\<lambda>e. \<not> deprecated e) corrupted_store \<noteq> []"
    and d: "filter deprecated corrupted_store \<noteq> []"
    by (simp_all add: corrupted_store_def example_store_def example_entry_def)
  have f1: "find_ref (\<lambda>e. entry_id e = selected (example_answers ''id1'' ErrBack ShowOld ''id3''))
      corrupted_store = Some 0"
    and f3: "find_ref
      (\<lambda>e. entry_id e = selected_old (example_answers ''id1'' ErrBack ShowOld ''id3''))
      corrupted_store = Some 2"
    and f4: "find_ref (\<lambda>e. entry_id e = selected (example_answers ''id4'' ErrBack Back []))
      corrupted_store = Some 3"
    by (simp_all add: corrupted_store_def example_store_def example_entry_def
        example_answers_def js_def)
  have d1: "decryptText toy_gcm example_key (secret (corrupted_store ! 0)) = Inr (js ''pw'')"
    by (simp add: corrupted_store_def example_store_def example_entry_def decryptText_example)
  have d3: "decryptText toy_gcm example_key (secret (corrupted_store ! 2)) = Inl TypeError"
    and d4: "decryptText toy_gcm example_key (secret (corrupted_store ! 3)) = Inl TypeError"
    by (simp_all add: corrupted_store_def example_store_def example_entry_def
        decryptText_corrupted)
  have n: "next_step (example_answers ''id1'' ErrBack ShowOld ''id3'') = ShowOld"
    by (simp add: example_answers_def)
  let ?w1 = "console_log (PasswordFor (name (corrupted_store ! 0)) (js ''pw'')) ?w"
  have s1: "store_file ?w1 = Some corrupted_store"
    by (simp add: console_log_def example_world_def)
  have "getFlow toy_gcm example_key (example_answers ''id1'' ErrBack ShowOld ''id3'') ?w
      = Threw TypeError ?w1"
    unfolding getFlow_ShowOld [OF s a f1 d1 n]
    using s1 d f3 d3 by (rule showDeprecated_throws)
  then have 1: "thrown (mainMenu toy_gcm example_key
      [Get (example_answers ''id1'' ErrBack ShowOld ''id3''), Gen (js ''later.com'')] ?w)
      = Some TypeError"
    by simp
  from getFlow_catches [OF s a f4 d4] obtain w' where
    "getFlow toy_gcm example_key (example_answers ''id4'' ErrBack Back []) ?w = Returned w'"
    by blast
  then have 2: "thrown (mainMenu toy_gcm example_key
      [Get (example_answers ''id4'' ErrBack Back [])] ?w) = None"
    by simp
  from 1 2 show ?thesis by simp
qed

end
